theory Spec2Isabelle
  imports Main
begin

section \<open>The VirtSquad controller: data model\<close>

text \<open>
  The development embeds \<^verbatim>\<open>internal/controller/virtsquad_controller.go\<close>.
  The reconciler talks to the cluster through the \<^verbatim>\<open>client.Client\<close> interface it
  embeds; the model takes that interface as a record of operations over an abstract
  cluster state, so that every theorem stated for a reconciler \<open>r\<close> holds for any
  implementation of the interface. Go's \<^verbatim>\<open>error\<close> results are values of
  \<open>api_error\<close>; \<^verbatim>\<open>int32\<close> values are integers with the wrap-around of every
  conversion and subtraction written out (\<open>int32\<close>).
\<close>

datatype api_error = NotFound | AlreadyExists | Conflict | ServerError | SchemeError

type_synonym labels = "(string \<times> string) list"

text \<open>A pod, with the fields the controller writes or reads.\<close>

record pod =
  pod_name :: string
  pod_namespace :: string
  pod_labels :: labels
  pod_owner :: "string option"
  pod_containers :: "(string \<times> string \<times> int \<times> string) list"
  pod_conditions :: "(string \<times> string) list"

text \<open>
  Modelled from the spec: the type declarations of \<^verbatim>\<open>api/v1\<close> are not among the
  sources. The fields are the ones the controller uses: a team member spec has the
  pointers \<^verbatim>\<open>Name *string\<close> and \<^verbatim>\<open>Replicas *int32\<close>, the status has one name list
  per member and the two \<^verbatim>\<open>int32\<close> counters.
\<close>

record team_member_spec =
  tm_Name :: "string option"
  tm_Replicas :: "int option"

record virtsquad_spec =
  Oksana :: "team_member_spec option"
  Kurtis :: "team_member_spec option"
  Matt :: "team_member_spec option"
  Kike :: "team_member_spec option"

record virtsquad_status =
  OksanaPods :: "string list"
  KurtisPods :: "string list"
  MattPods :: "string list"
  KikePods :: "string list"
  TotalPods :: int
  ReadyPods :: int

record virtsquad =
  vs_Name :: string
  vs_Namespace :: string
  vs_DeletionTimestamp :: "nat option"
  vs_Finalizers :: "string list"
  vs_Spec :: virtsquad_spec
  vs_Status :: virtsquad_status

definition virtSquadFinalizer :: string where
  "virtSquadFinalizer = ''virtsquad.mshort55.io/finalizer''"

text \<open>The conversion to \<^verbatim>\<open>int32\<close>: two's complement wrap-around to 32 bits.\<close>

definition int32 :: "int \<Rightarrow> int" where
  "int32 x = (x + 2147483648) mod 4294967296 - 2147483648"

definition is_int32 :: "int \<Rightarrow> bool" where
  "is_int32 x = (- 2147483648 \<le> x \<and> x < 2147483648)"

text \<open>The verb \<^verbatim>\<open>%d\<close> of \<^verbatim>\<open>fmt.Sprintf\<close>: decimal digits, with a sign when negative.\<close>

fun digits :: "nat \<Rightarrow> string" where
  "digits n = (if n < 10 then [''0123456789'' ! n]
               else digits (n div 10) @ [''0123456789'' ! (n mod 10)])"

declare digits.simps [simp del]

definition show_int :: "int \<Rightarrow> string" where
  "show_int i = (if i < 0 then ''-'' @ digits (nat (- i)) else digits (nat i))"

subsection \<open>The client interface and the trace of calls\<close>

text \<open>
  Each call of the client is recorded, with the error it returned, in a trace that
  the model threads beside the cluster state. The trace is how the claims about
  "calls made" are stated; it has no influence on what the reconciler does.
\<close>

datatype call =
    CallGet "string \<times> string"
  | CallList string labels
  | CallCreate pod
  | CallDelete pod
  | CallUpdate virtsquad
  | CallStatusUpdate virtsquad

type_synonym event = "call \<times> api_error option"

type_synonym 's world = "'s \<times> event list"

text \<open>
  The reconciler struct: the embedded client and the scheme. \<^verbatim>\<open>Update\<close> and
  \<^verbatim>\<open>Status().Update\<close> write the server's answer back into the object they are
  given, so they return the object. The scheme is the list of registered kinds.
\<close>

record 's reconciler =
  cGet :: "'s \<Rightarrow> string \<times> string \<Rightarrow> 's \<times> (api_error + virtsquad)"
  cList :: "'s \<Rightarrow> string \<Rightarrow> labels \<Rightarrow> 's \<times> (api_error + pod list)"
  cCreate :: "'s \<Rightarrow> pod \<Rightarrow> 's \<times> api_error option"
  cDelete :: "'s \<Rightarrow> pod \<Rightarrow> 's \<times> api_error option"
  cUpdate :: "'s \<Rightarrow> virtsquad \<Rightarrow> 's \<times> (api_error + virtsquad)"
  cStatusUpdate :: "'s \<Rightarrow> virtsquad \<Rightarrow> 's \<times> (api_error + virtsquad)"
  Scheme :: "string list"

definition err_of :: "api_error + 'a \<Rightarrow> api_error option" where
  "err_of x = (case x of Inl e \<Rightarrow> Some e | Inr _ \<Rightarrow> None)"

definition r_Get :: "'s reconciler \<Rightarrow> 's world \<Rightarrow> string \<times> string
    \<Rightarrow> 's world \<times> (api_error + virtsquad)" where
  "r_Get r w key = (case cGet r (fst w) key of
     (s, res) \<Rightarrow> ((s, snd w @ [(CallGet key, err_of res)]), res))"

definition r_List :: "'s reconciler \<Rightarrow> 's world \<Rightarrow> string \<Rightarrow> labels
    \<Rightarrow> 's world \<times> (api_error + pod list)" where
  "r_List r w ns sel = (case cList r (fst w) ns sel of
     (s, res) \<Rightarrow> ((s, snd w @ [(CallList ns sel, err_of res)]), res))"

definition r_Create :: "'s reconciler \<Rightarrow> 's world \<Rightarrow> pod \<Rightarrow> 's world \<times> api_error option" where
  "r_Create r w p = (case cCreate r (fst w) p of
     (s, res) \<Rightarrow> ((s, snd w @ [(CallCreate p, res)]), res))"

definition r_Delete :: "'s reconciler \<Rightarrow> 's world \<Rightarrow> pod \<Rightarrow> 's world \<times> api_error option" where
  "r_Delete r w p = (case cDelete r (fst w) p of
     (s, res) \<Rightarrow> ((s, snd w @ [(CallDelete p, res)]), res))"

definition r_Update :: "'s reconciler \<Rightarrow> 's world \<Rightarrow> virtsquad
    \<Rightarrow> 's world \<times> (api_error + virtsquad)" where
  "r_Update r w v = (case cUpdate r (fst w) v of
     (s, res) \<Rightarrow> ((s, snd w @ [(CallUpdate v, err_of res)]), res))"

definition r_StatusUpdate :: "'s reconciler \<Rightarrow> 's world \<Rightarrow> virtsquad
    \<Rightarrow> 's world \<times> (api_error + virtsquad)" where
  "r_StatusUpdate r w v = (case cStatusUpdate r (fst w) v of
     (s, res) \<Rightarrow> ((s, snd w @ [(CallStatusUpdate v, err_of res)]), res))"

subsection \<open>Helpers of controller-runtime\<close>

definition ContainsFinalizer :: "virtsquad \<Rightarrow> string \<Rightarrow> bool" where
  "ContainsFinalizer v f = (f \<in> set (vs_Finalizers v))"

definition AddFinalizer :: "virtsquad \<Rightarrow> string \<Rightarrow> virtsquad" where
  "AddFinalizer v f =
     (if f \<in> set (vs_Finalizers v) then v else v\<lparr>vs_Finalizers := vs_Finalizers v @ [f]\<rparr>)"

definition RemoveFinalizer :: "virtsquad \<Rightarrow> string \<Rightarrow> virtsquad" where
  "RemoveFinalizer v f = v\<lparr>vs_Finalizers := filter (\<lambda>g. g \<noteq> f) (vs_Finalizers v)\<rparr>"

text \<open>
  \<^verbatim>\<open>SetControllerReference\<close> fails when the scheme does not know the owner's kind
  and otherwise records the owner on the object.
\<close>

definition SetControllerReference :: "virtsquad \<Rightarrow> pod \<Rightarrow> string list \<Rightarrow> api_error + pod" where
  "SetControllerReference owner obj scheme =
     (if ''VirtSquad'' \<in> set scheme then Inr (obj\<lparr>pod_owner := Some (vs_Name owner)\<rparr>)
      else Inl SchemeError)"

section \<open>The controller\<close>

text \<open>The label selector of one team member, and the one of the whole squad.\<close>

definition memberLabels :: "string \<Rightarrow> string \<Rightarrow> labels" where
  "memberLabels memberName squad =
     [(''app'', ''virtsquad''),
      (''virtsquad.mshort55.io/member'', memberName),
      (''virtsquad.mshort55.io/squad'', squad)]"

definition squadLabels :: "string \<Rightarrow> labels" where
  "squadLabels squad =
     [(''app'', ''virtsquad''), (''virtsquad.mshort55.io/squad'', squad)]"

text \<open>\<^verbatim>\<open>isPodReady\<close>: some condition has type Ready and status True.\<close>

fun isPodReady_conds :: "(string \<times> string) list \<Rightarrow> bool" where
  "isPodReady_conds [] = False"
| "isPodReady_conds (c # cs) =
     (if fst c = ''Ready'' \<and> snd c = ''True'' then True else isPodReady_conds cs)"

definition isPodReady :: "pod \<Rightarrow> bool" where
  "isPodReady p = isPodReady_conds (pod_conditions p)"

text \<open>\<^verbatim>\<open>createPodForMember\<close>: the pod object it builds, and the call.\<close>

definition newPod :: "virtsquad \<Rightarrow> string \<Rightarrow> string \<Rightarrow> int \<Rightarrow> pod" where
  "newPod virtSquad memberName podBaseName replica =
     \<lparr> pod_name = podBaseName @ ''-'' @ show_int replica,
       pod_namespace = vs_Namespace virtSquad,
       pod_labels = memberLabels memberName (vs_Name virtSquad),
       pod_owner = None,
       pod_containers = [(memberName, ''nginx:latest'', 80, ''http'')],
       pod_conditions = [] \<rparr>"

definition createPodForMember :: "'s reconciler \<Rightarrow> 's world \<Rightarrow> virtsquad \<Rightarrow> string \<Rightarrow> string
    \<Rightarrow> int \<Rightarrow> 's world \<times> api_error option" where
  "createPodForMember r w virtSquad memberName podBaseName replica =
     (case SetControllerReference virtSquad
             (newPod virtSquad memberName podBaseName replica) (Scheme r) of
        Inl e \<Rightarrow> (w, Some e)
      | Inr p \<Rightarrow> r_Create r w p)"

text \<open>
  The loop \<^verbatim>\<open>for _, pod := range existingPods.Items\<close> that deletes every listed
  pod and returns at the first error (in \<^verbatim>\<open>deleteTeamMemberPods\<close> and in
  \<^verbatim>\<open>finalizeVirtSquad\<close>).
\<close>

fun delete_each :: "'s reconciler \<Rightarrow> 's world \<Rightarrow> pod list \<Rightarrow> 's world \<times> api_error option" where
  "delete_each r w [] = (w, None)"
| "delete_each r w (p # ps) =
     (case r_Delete r w p of
        (w', Some e) \<Rightarrow> (w', Some e)
      | (w', None) \<Rightarrow> delete_each r w' ps)"

text \<open>
  \<^verbatim>\<open>deleteTeamMemberPods\<close>. The out-parameter \<^verbatim>\<open>*statusPods\<close> is written on the
  successful path only; it is the \<open>Inr\<close> value of the result.
\<close>

definition deleteTeamMemberPods :: "'s reconciler \<Rightarrow> 's world \<Rightarrow> virtsquad \<Rightarrow> string
    \<Rightarrow> 's world \<times> (api_error + string list)" where
  "deleteTeamMemberPods r w virtSquad memberName =
     (case r_List r w (vs_Namespace virtSquad) (memberLabels memberName (vs_Name virtSquad)) of
        (w1, Inl e) \<Rightarrow> (w1, Inl e)
      | (w1, Inr items) \<Rightarrow>
          (case delete_each r w1 items of
             (w2, Some e) \<Rightarrow> (w2, Inl e)
           | (w2, None) \<Rightarrow> (w2, Inr [])))"

text \<open>
  The scale-up loop \<^verbatim>\<open>for i := currentReplicas; i < desiredReplicas; i++\<close>.
  The increment cannot overflow: \<open>i < desiredReplicas\<close> and the bound is an
  \<^verbatim>\<open>int32\<close>.
\<close>

function scaleUp :: "'s reconciler \<Rightarrow> 's world \<Rightarrow> virtsquad \<Rightarrow> string \<Rightarrow> string
    \<Rightarrow> int \<Rightarrow> int \<Rightarrow> 's world \<times> api_error option" where
  "scaleUp r w virtSquad memberName base i desiredReplicas =
     (if i < desiredReplicas then
        (case createPodForMember r w virtSquad memberName base i of
           (w', Some e) \<Rightarrow> (w', Some e)
         | (w', None) \<Rightarrow> scaleUp r w' virtSquad memberName base (i + 1) desiredReplicas)
      else (w, None))"
  by pat_completeness auto
termination
  by (relation "measure (\<lambda>(r, w, v, m, b, i, d). nat (d - i))") auto

declare scaleUp.simps [simp del]

text \<open>
  The scale-down loop
  \<^verbatim>\<open>for i := int32(0); i < podsToDelete && i < int32(len(existingPods.Items)); i++\<close>,
  which deletes \<^verbatim>\<open>existingPods.Items[i]\<close>. The index is in range whenever the
  condition holds, since \<open>int32 (length items) \<le> length items\<close>.
\<close>

function scaleDown :: "'s reconciler \<Rightarrow> 's world \<Rightarrow> pod list \<Rightarrow> int \<Rightarrow> int
    \<Rightarrow> 's world \<times> api_error option" where
  "scaleDown r w items i podsToDelete =
     (if i < podsToDelete \<and> i < int32 (int (length items)) then
        (case r_Delete r w (items ! nat i) of
           (w', Some e) \<Rightarrow> (w', Some e)
         | (w', None) \<Rightarrow> scaleDown r w' items (i + 1) podsToDelete)
      else (w, None))"
  by pat_completeness auto
termination
  by (relation "measure (\<lambda>(r, w, items, i, n). nat (n - i))") auto

declare scaleDown.simps [simp del]

text \<open>
  \<^verbatim>\<open>reconcileTeamMember\<close>. As in \<open>deleteTeamMemberPods\<close>, the out-parameter
  \<^verbatim>\<open>*statusPods\<close> is the \<open>Inr\<close> value: it is built from \<^verbatim>\<open>existingPods.Items\<close>,
  the list read before the scale-up and scale-down loops ran.
\<close>

definition reconcileTeamMember :: "'s reconciler \<Rightarrow> 's world \<Rightarrow> virtsquad \<Rightarrow> string
    \<Rightarrow> team_member_spec option \<Rightarrow> 's world \<times> (api_error + string list)" where
  "reconcileTeamMember r w virtSquad memberName memberSpec =
     (case memberSpec of
        None \<Rightarrow> deleteTeamMemberPods r w virtSquad memberName
      | Some ms \<Rightarrow>
     (case tm_Name ms of
        None \<Rightarrow> deleteTeamMemberPods r w virtSquad memberName
      | Some base \<Rightarrow>
     (let desiredReplicas = (case tm_Replicas ms of None \<Rightarrow> 1 | Some d \<Rightarrow> d) in
      case r_List r w (vs_Namespace virtSquad)
             (memberLabels memberName (vs_Name virtSquad)) of
        (w1, Inl e) \<Rightarrow> (w1, Inl e)
      | (w1, Inr items) \<Rightarrow>
     (let currentReplicas = int32 (int (length items)) in
      case (if currentReplicas < desiredReplicas
            then scaleUp r w1 virtSquad memberName base currentReplicas desiredReplicas
            else (w1, None)) of
        (w2, Some e) \<Rightarrow> (w2, Inl e)
      | (w2, None) \<Rightarrow>
     (case (if currentReplicas > desiredReplicas
            then scaleDown r w2 items 0 (int32 (currentReplicas - desiredReplicas))
            else (w2, None)) of
        (w3, Some e) \<Rightarrow> (w3, Inl e)
      | (w3, None) \<Rightarrow> (w3, Inr (map pod_name items)))))))"

text \<open>\<^verbatim>\<open>countReadyPods\<close>: \<^verbatim>\<open>readyCount++\<close> on an \<^verbatim>\<open>int32\<close>.\<close>

fun count_ready :: "pod list \<Rightarrow> int \<Rightarrow> int" where
  "count_ready [] readyCount = readyCount"
| "count_ready (p # ps) readyCount =
     count_ready ps (if isPodReady p then int32 (readyCount + 1) else readyCount)"

definition countReadyPods :: "'s reconciler \<Rightarrow> 's world \<Rightarrow> virtsquad
    \<Rightarrow> 's world \<times> (api_error + int)" where
  "countReadyPods r w virtSquad =
     (case r_List r w (vs_Namespace virtSquad) (squadLabels (vs_Name virtSquad)) of
        (w1, Inl e) \<Rightarrow> (w1, Inl e)
      | (w1, Inr items) \<Rightarrow> (w1, Inr (count_ready items 0)))"

text \<open>\<^verbatim>\<open>finalizeVirtSquad\<close>.\<close>

definition finalizeVirtSquad :: "'s reconciler \<Rightarrow> 's world \<Rightarrow> virtsquad
    \<Rightarrow> 's world \<times> api_error option" where
  "finalizeVirtSquad r w virtSquad =
     (case r_List r w (vs_Namespace virtSquad) (squadLabels (vs_Name virtSquad)) of
        (w1, Inl e) \<Rightarrow> (w1, Some e)
      | (w1, Inr items) \<Rightarrow> delete_each r w1 items)"

text \<open>
  \<^verbatim>\<open>Reconcile\<close>, in parts that follow the source from top to bottom: the
  block that adds the finalizer (\<open>ensureFinalizer\<close>, defined just before the
  function), the four calls of \<^verbatim>\<open>reconcileTeamMember\<close> that fill a fresh status and set
  \<^verbatim>\<open>TotalPods\<close> (\<open>reconcileMembers\<close>), the ready count with the status write
  (\<open>updateStatus\<close>), and the function itself.
\<close>

definition emptyStatus :: virtsquad_status where
  "emptyStatus = \<lparr> OksanaPods = [], KurtisPods = [], MattPods = [], KikePods = [],
                   TotalPods = 0, ReadyPods = 0 \<rparr>"

definition reconcileMembers :: "'s reconciler \<Rightarrow> 's world \<Rightarrow> virtsquad
    \<Rightarrow> 's world \<times> (api_error + virtsquad_status)" where
  "reconcileMembers r w virtSquad =
     (case reconcileTeamMember r w virtSquad ''oksana'' (Oksana (vs_Spec virtSquad)) of
        (w1, Inl e) \<Rightarrow> (w1, Inl e)
      | (w1, Inr oksanaPods) \<Rightarrow>
     (case reconcileTeamMember r w1 virtSquad ''kurtis'' (Kurtis (vs_Spec virtSquad)) of
        (w2, Inl e) \<Rightarrow> (w2, Inl e)
      | (w2, Inr kurtisPods) \<Rightarrow>
     (case reconcileTeamMember r w2 virtSquad ''matt'' (Matt (vs_Spec virtSquad)) of
        (w3, Inl e) \<Rightarrow> (w3, Inl e)
      | (w3, Inr mattPods) \<Rightarrow>
     (case reconcileTeamMember r w3 virtSquad ''kike'' (Kike (vs_Spec virtSquad)) of
        (w4, Inl e) \<Rightarrow> (w4, Inl e)
      | (w4, Inr kikePods) \<Rightarrow>
          (w4, Inr (emptyStatus\<lparr> OksanaPods := oksanaPods, KurtisPods := kurtisPods,
                     MattPods := mattPods, KikePods := kikePods,
                     TotalPods := int32 (int (length oksanaPods + length kurtisPods
                                   + length mattPods + length kikePods)) \<rparr>))))))"

definition updateStatus :: "'s reconciler \<Rightarrow> 's world \<Rightarrow> virtsquad \<Rightarrow> virtsquad_status
    \<Rightarrow> 's world \<times> api_error option" where
  "updateStatus r w virtSquad status =
     (case countReadyPods r w virtSquad of
        (w1, cnt) \<Rightarrow>
     (let status' = (case cnt of Inl e \<Rightarrow> status
                              | Inr readyCount \<Rightarrow> status\<lparr>ReadyPods := readyCount\<rparr>) in
      case r_StatusUpdate r w1 (virtSquad\<lparr>vs_Status := status'\<rparr>) of
        (w2, Inl e) \<Rightarrow> (w2, Some e)
      | (w2, Inr _) \<Rightarrow> (w2, None)))"

definition ensureFinalizer :: "'s reconciler \<Rightarrow> 's world \<Rightarrow> virtsquad
    \<Rightarrow> 's world \<times> (api_error + virtsquad)" where
  "ensureFinalizer r w virtSquad =
     (if \<not> ContainsFinalizer virtSquad virtSquadFinalizer
      then r_Update r w (AddFinalizer virtSquad virtSquadFinalizer)
      else (w, Inr virtSquad))"

definition Reconcile :: "'s reconciler \<Rightarrow> 's world \<Rightarrow> string \<times> string
    \<Rightarrow> 's world \<times> api_error option" where
  "Reconcile r w req =
     (case r_Get r w req of
        (w1, Inl e) \<Rightarrow> (if e = NotFound then (w1, None) else (w1, Some e))
      | (w1, Inr virtSquad) \<Rightarrow>
     (if vs_DeletionTimestamp virtSquad \<noteq> None then
        (if ContainsFinalizer virtSquad virtSquadFinalizer then
           (case finalizeVirtSquad r w1 virtSquad of
              (w2, Some e) \<Rightarrow> (w2, Some e)
            | (w2, None) \<Rightarrow>
                (case r_Update r w2 (RemoveFinalizer virtSquad virtSquadFinalizer) of
                   (w3, Inl e) \<Rightarrow> (w3, Some e)
                 | (w3, Inr _) \<Rightarrow> (w3, None)))
         else (w1, None))
      else
     (case ensureFinalizer r w1 virtSquad of
        (w2, Inl e) \<Rightarrow> (w2, Some e)
      | (w2, Inr virtSquad') \<Rightarrow>
     (case reconcileMembers r w2 virtSquad' of
        (w3, Inl e) \<Rightarrow> (w3, Some e)
      | (w3, Inr status) \<Rightarrow> updateStatus r w3 virtSquad' status))))"

section \<open>An in-memory cluster\<close>

text \<open>
  Modelled from the spec: the control-plane API is an external collaborator; section 6
  of the specification gives its interface (\<open>get\<close>, \<open>update\<close>, \<open>updateStatus\<close>,
  \<open>list\<close>, \<open>create\<close>, \<open>delete\<close> and their \<open>NotFound\<close>, \<open>AlreadyExists\<close>, \<open>Conflict\<close>
  and error answers). The cluster stores the resources and the pods, the pods in
  listing order. A table of injected faults makes a call fail without effect, which is
  how an answer such as \<open>NotFound\<close> for a pod that vanished between the list and the
  delete is produced.
\<close>

datatype op = OpGet | OpList labels | OpCreate string | OpDelete string
  | OpUpdate | OpStatusUpdate

record cluster =
  c_squads :: "virtsquad list"
  c_pods :: "pod list"
  c_faults :: "op \<Rightarrow> api_error option"

definition matchingLabels :: "labels \<Rightarrow> labels \<Rightarrow> bool" where
  "matchingLabels sel ls = list_all (\<lambda>kv. map_of ls (fst kv) = Some (snd kv)) sel"

definition selected :: "string \<Rightarrow> labels \<Rightarrow> pod \<Rightarrow> bool" where
  "selected ns sel p = (pod_namespace p = ns \<and> matchingLabels sel (pod_labels p))"

definition pod_id :: "pod \<Rightarrow> string \<times> string" where
  "pod_id p = (pod_namespace p, pod_name p)"

definition vs_key :: "virtsquad \<Rightarrow> string \<times> string" where
  "vs_key v = (vs_Namespace v, vs_Name v)"

definition mGet :: "cluster \<Rightarrow> string \<times> string \<Rightarrow> cluster \<times> (api_error + virtsquad)" where
  "mGet s key =
     (case c_faults s OpGet of
        Some e \<Rightarrow> (s, Inl e)
      | None \<Rightarrow>
          (case find (\<lambda>v. vs_key v = key) (c_squads s) of
             None \<Rightarrow> (s, Inl NotFound)
           | Some v \<Rightarrow> (s, Inr v)))"

definition mList :: "cluster \<Rightarrow> string \<Rightarrow> labels \<Rightarrow> cluster \<times> (api_error + pod list)" where
  "mList s ns sel =
     (case c_faults s (OpList sel) of
        Some e \<Rightarrow> (s, Inl e)
      | None \<Rightarrow> (s, Inr (filter (selected ns sel) (c_pods s))))"

definition mCreate :: "cluster \<Rightarrow> pod \<Rightarrow> cluster \<times> api_error option" where
  "mCreate s p =
     (case c_faults s (OpCreate (pod_name p)) of
        Some e \<Rightarrow> (s, Some e)
      | None \<Rightarrow>
          (if pod_id p \<in> set (map pod_id (c_pods s)) then (s, Some AlreadyExists)
           else (s\<lparr>c_pods := c_pods s @ [p]\<rparr>, None)))"

definition mDelete :: "cluster \<Rightarrow> pod \<Rightarrow> cluster \<times> api_error option" where
  "mDelete s p =
     (case c_faults s (OpDelete (pod_name p)) of
        Some e \<Rightarrow> (s, Some e)
      | None \<Rightarrow>
          (if pod_id p \<in> set (map pod_id (c_pods s))
           then (s\<lparr>c_pods := filter (\<lambda>q. pod_id q \<noteq> pod_id p) (c_pods s)\<rparr>, None)
           else (s, Some NotFound)))"

text \<open>
  An update keeps the stored status (the status is a subresource) and removes a
  resource that is marked for deletion once its last finalizer is gone.
\<close>

definition mUpdate :: "cluster \<Rightarrow> virtsquad \<Rightarrow> cluster \<times> (api_error + virtsquad)" where
  "mUpdate s v =
     (case c_faults s OpUpdate of
        Some e \<Rightarrow> (s, Inl e)
      | None \<Rightarrow>
          (case find (\<lambda>x. vs_key x = vs_key v) (c_squads s) of
             None \<Rightarrow> (s, Inl NotFound)
           | Some old \<Rightarrow>
               (let v' = v\<lparr>vs_Status := vs_Status old\<rparr> in
                (s\<lparr>c_squads :=
                     (if vs_DeletionTimestamp v' \<noteq> None \<and> vs_Finalizers v' = []
                      then filter (\<lambda>x. vs_key x \<noteq> vs_key v) (c_squads s)
                      else map (\<lambda>x. if vs_key x = vs_key v then v' else x) (c_squads s))\<rparr>,
                 Inr v'))))"

definition mStatusUpdate :: "cluster \<Rightarrow> virtsquad \<Rightarrow> cluster \<times> (api_error + virtsquad)" where
  "mStatusUpdate s v =
     (case c_faults s OpStatusUpdate of
        Some e \<Rightarrow> (s, Inl e)
      | None \<Rightarrow>
          (case find (\<lambda>x. vs_key x = vs_key v) (c_squads s) of
             None \<Rightarrow> (s, Inl NotFound)
           | Some old \<Rightarrow>
               (let v' = old\<lparr>vs_Status := vs_Status v\<rparr> in
                (s\<lparr>c_squads := map (\<lambda>x. if vs_key x = vs_key v then v' else x) (c_squads s)\<rparr>,
                 Inr v'))))"

definition mem :: "cluster reconciler" where
  "mem = \<lparr> cGet = mGet, cList = mList, cCreate = mCreate, cDelete = mDelete,
           cUpdate = mUpdate, cStatusUpdate = mStatusUpdate, Scheme = [''VirtSquad''] \<rparr>"

definition no_faults :: "op \<Rightarrow> api_error option" where
  "no_faults = (\<lambda>_. None)"

text \<open>
  The pod that \<^verbatim>\<open>createPodForMember\<close> hands to \<^verbatim>\<open>r.Create\<close>: the pod it
  built, with the controller reference set.
\<close>

definition ownedPod :: "virtsquad \<Rightarrow> string \<Rightarrow> string \<Rightarrow> int \<Rightarrow> pod" where
  "ownedPod v m base i = (newPod v m base i)\<lparr>pod_owner := Some (vs_Name v)\<rparr>"

subsection \<open>Concrete inputs\<close>

text \<open>
  A squad \<open>s\<close> in namespace \<open>ns\<close> whose only configured member is oksana, a pod
  of that squad, and a cluster that holds the squad and some pods.
\<close>

definition ex_squad :: "team_member_spec option \<Rightarrow> string list \<Rightarrow> nat option \<Rightarrow> virtsquad" where
  "ex_squad oksana fins del =
     \<lparr> vs_Name = ''s'', vs_Namespace = ''ns'', vs_DeletionTimestamp = del,
       vs_Finalizers = fins,
       vs_Spec = \<lparr> Oksana = oksana, Kurtis = None, Matt = None, Kike = None \<rparr>,
       vs_Status = emptyStatus \<rparr>"

definition ex_member :: "string option \<Rightarrow> int option \<Rightarrow> team_member_spec" where
  "ex_member base replicas = \<lparr> tm_Name = base, tm_Replicas = replicas \<rparr>"

definition ex_pod :: "string \<Rightarrow> string \<Rightarrow> bool \<Rightarrow> pod" where
  "ex_pod name member ready =
     \<lparr> pod_name = name, pod_namespace = ''ns'',
       pod_labels = memberLabels member ''s'',
       pod_owner = Some ''s'',
       pod_containers = [(member, ''nginx:latest'', 80, ''http'')],
       pod_conditions = (if ready then [(''Ready'', ''True'')] else []) \<rparr>"

definition ex_cluster :: "virtsquad \<Rightarrow> pod list \<Rightarrow> (op \<Rightarrow> api_error option) \<Rightarrow> cluster" where
  "ex_cluster v ps faults = \<lparr> c_squads = [v], c_pods = ps, c_faults = faults \<rparr>"

text \<open>The fault table with one failing operation.\<close>

definition one_fault :: "op \<Rightarrow> api_error \<Rightarrow> op \<Rightarrow> api_error option" where
  "one_fault bad e = (\<lambda>x. if x = bad then Some e else None)"

text \<open>The client method behind a recorded call.\<close>

definition call_kind :: "call \<Rightarrow> string" where
  "call_kind c = (case c of CallGet _ \<Rightarrow> ''Get'' | CallList _ _ \<Rightarrow> ''List''
     | CallCreate _ \<Rightarrow> ''Create'' | CallDelete _ \<Rightarrow> ''Delete''
     | CallUpdate _ \<Rightarrow> ''Update'' | CallStatusUpdate _ \<Rightarrow> ''Status().Update'')"

text \<open>
  The pods that the list call of a member, and the one of the squad, select in a
  cluster.
\<close>

definition group_pods :: "cluster \<Rightarrow> string \<Rightarrow> string \<Rightarrow> string \<Rightarrow> pod list" where
  "group_pods s ns squad m = filter (selected ns (memberLabels m squad)) (c_pods s)"

definition squad_pods :: "cluster \<Rightarrow> string \<Rightarrow> string \<Rightarrow> pod list" where
  "squad_pods s ns squad = filter (selected ns (squadLabels squad)) (c_pods s)"

text \<open>The events that create or delete a pod.\<close>

definition mutation :: "event \<Rightarrow> bool" where
  "mutation ev = (call_kind (fst ev) = ''Create'' \<or> call_kind (fst ev) = ''Delete'')"

text \<open>
  A member is settled in a cluster when its reconciliation finds nothing to create
  or delete: no pod for a member without spec or name, and otherwise a count that is
  not below the desired one and a scale-down bound that deletes nothing.
\<close>

definition settled :: "cluster \<Rightarrow> string \<Rightarrow> string \<Rightarrow> string \<Rightarrow> team_member_spec option \<Rightarrow> bool" where
  "settled s ns squad m spec =
     (let n = int (length (group_pods s ns squad m)) in
      case spec of
        None \<Rightarrow> n = 0
      | Some ms \<Rightarrow>
          (case tm_Name ms of
             None \<Rightarrow> n = 0
           | Some base \<Rightarrow>
               (let d = (case tm_Replicas ms of None \<Rightarrow> 1 | Some d \<Rightarrow> d) in
                n < 2147483648 \<and> d \<le> n \<and> (n = 0 \<or> int32 (n - d) \<le> 0))))"

text \<open>The replica counts of a spec are \<^verbatim>\<open>int32\<close> values.\<close>

definition replicas_int32 :: "team_member_spec option \<Rightarrow> bool" where
  "replicas_int32 spec =
     (case spec of None \<Rightarrow> True
      | Some ms \<Rightarrow> (case tm_Replicas ms of None \<Rightarrow> True | Some d \<Rightarrow> is_int32 d))"

definition spec_int32 :: "virtsquad_spec \<Rightarrow> bool" where
  "spec_int32 sp = (replicas_int32 (Oksana sp) \<and> replicas_int32 (Kurtis sp)
                    \<and> replicas_int32 (Matt sp) \<and> replicas_int32 (Kike sp))"

text \<open>
  A cluster is at rest for a resource identity when a pass has nothing to create or
  delete: the resource cannot be fetched, or it is marked for deletion and carries
  no finalizer, or it carries the finalizer and its four members are settled.
\<close>

definition at_rest :: "cluster \<Rightarrow> string \<times> string \<Rightarrow> bool" where
  "at_rest s req =
     (case snd (mGet s req) of
        Inl e \<Rightarrow> True
      | Inr y \<Rightarrow>
          (if vs_DeletionTimestamp y \<noteq> None then \<not> ContainsFinalizer y virtSquadFinalizer
           else ContainsFinalizer y virtSquadFinalizer
              \<and> settled s (vs_Namespace y) (vs_Name y) ''oksana'' (Oksana (vs_Spec y))
              \<and> settled s (vs_Namespace y) (vs_Name y) ''kurtis'' (Kurtis (vs_Spec y))
              \<and> settled s (vs_Namespace y) (vs_Name y) ''matt'' (Matt (vs_Spec y))
              \<and> settled s (vs_Namespace y) (vs_Name y) ''kike'' (Kike (vs_Spec y))))"


text \<open>
  The state of the client after the delete calls, and after the create calls, for the
  pods of a list in order.
\<close>

definition after_deletes :: "'s reconciler \<Rightarrow> 's \<Rightarrow> pod list \<Rightarrow> 's" where
  "after_deletes r s ps = foldl (\<lambda>s p. fst (cDelete r s p)) s ps"

definition after_creates :: "'s reconciler \<Rightarrow> 's \<Rightarrow> pod list \<Rightarrow> 's" where
  "after_creates r s ps = foldl (\<lambda>s p. fst (cCreate r s p)) s ps"

text \<open>
  A cluster with graceful termination: a delete call is acknowledged and the pod
  stays stored and listed (a cluster removes a pod only once its grace period has
  ended and its own finalizers are gone). Every other operation is the one of the
  in-memory cluster.
\<close>

definition gDelete :: "cluster \<Rightarrow> pod \<Rightarrow> cluster \<times> api_error option" where
  "gDelete s p =
     (case c_faults s (OpDelete (pod_name p)) of
        Some e \<Rightarrow> (s, Some e)
      | None \<Rightarrow>
          (if pod_id p \<in> set (map pod_id (c_pods s)) then (s, None)
           else (s, Some NotFound)))"

definition grace :: "cluster reconciler" where
  "grace = mem\<lparr> cDelete := gDelete \<rparr>"

section \<open>The trace of a reconciliation\<close>

lemmas model_defs =
  Reconcile_def ensureFinalizer_def reconcileMembers_def updateStatus_def
  reconcileTeamMember_def deleteTeamMemberPods_def finalizeVirtSquad_def countReadyPods_def
  createPodForMember_def SetControllerReference_def newPod_def ownedPod_def
  scaleUp.simps scaleDown.simps isPodReady_def
  ContainsFinalizer_def AddFinalizer_def RemoveFinalizer_def virtSquadFinalizer_def
  memberLabels_def squadLabels_def emptyStatus_def
  r_Get_def r_List_def r_Create_def r_Delete_def r_Update_def r_StatusUpdate_def err_of_def
  int32_def show_int_def digits.simps Let_def

lemmas mem_defs =
  mem_def mGet_def mList_def mCreate_def mDelete_def mUpdate_def mStatusUpdate_def
  selected_def matchingLabels_def pod_id_def vs_key_def no_faults_def one_fault_def

lemmas ex_defs = ex_squad_def ex_member_def ex_pod_def ex_cluster_def

lemma r_Get_events:
  "r_Get r w k = (w', res) \<Longrightarrow> snd w' = snd w @ [(CallGet k, err_of res)]"
  by (auto simp: r_Get_def split: prod.splits)

lemma r_List_events:
  "r_List r w ns sel = (w', res) \<Longrightarrow> snd w' = snd w @ [(CallList ns sel, err_of res)]"
  by (auto simp: r_List_def split: prod.splits)

lemma r_Create_events:
  "r_Create r w p = (w', res) \<Longrightarrow> snd w' = snd w @ [(CallCreate p, res)]"
  by (auto simp: r_Create_def split: prod.splits)

lemma r_Delete_events:
  "r_Delete r w p = (w', res) \<Longrightarrow> snd w' = snd w @ [(CallDelete p, res)]"
  by (auto simp: r_Delete_def split: prod.splits)

lemma r_Update_events:
  "r_Update r w v = (w', res) \<Longrightarrow> snd w' = snd w @ [(CallUpdate v, err_of res)]"
  by (auto simp: r_Update_def split: prod.splits)

lemma r_StatusUpdate_events:
  "r_StatusUpdate r w v = (w', res) \<Longrightarrow> snd w' = snd w @ [(CallStatusUpdate v, err_of res)]"
  by (auto simp: r_StatusUpdate_def split: prod.splits)

lemma int32_length:
  "length (xs::'a list) < 2147483648 \<Longrightarrow> int32 (int (length xs)) = int (length xs)"
  by (simp add: int32_def)

subsection \<open>The delete loops\<close>

lemma delete_each_ok:
  "delete_each r w ps = (w', None) \<Longrightarrow>
     snd w' = snd w @ map (\<lambda>p. (CallDelete p, None)) ps"
proof (induction ps arbitrary: w)
  case Nil
  then show ?case by simp
next
  case (Cons p ps)
  obtain w1 res where d: "r_Delete r w p = (w1, res)" by (cases "r_Delete r w p")
  with Cons.prems have "res = None" and rest: "delete_each r w1 ps = (w', None)"
    by (auto split: option.splits)
  with Cons.IH [OF rest] r_Delete_events [OF d] show ?case by simp
qed

lemma delete_each_err:
  "delete_each r w ps = (w', Some e) \<Longrightarrow>
     \<exists>k < length ps. snd w' = snd w @ map (\<lambda>p. (CallDelete p, None)) (take k ps)
                         @ [(CallDelete (ps ! k), Some e)]"
proof (induction ps arbitrary: w)
  case Nil
  then show ?case by simp
next
  case (Cons p ps)
  obtain w1 res where d: "r_Delete r w p = (w1, res)" by (cases "r_Delete r w p")
  show ?case
  proof (cases res)
    case None
    with Cons.prems d have rest: "delete_each r w1 ps = (w', Some e)" by simp
    from Cons.IH [OF rest] obtain k where k: "k < length ps"
      "snd w' = snd w1 @ map (\<lambda>p. (CallDelete p, None)) (take k ps)
                 @ [(CallDelete (ps ! k), Some e)]"
      by blast
    with r_Delete_events [OF d] None have
      "Suc k < length (p # ps) \<and>
       snd w' = snd w @ map (\<lambda>p. (CallDelete p, None)) (take (Suc k) (p # ps))
                 @ [(CallDelete ((p # ps) ! Suc k), Some e)]" by simp
    then show ?thesis by blast
  next
    case (Some e')
    with Cons.prems d have "w' = w1" "e' = e" by auto
    with r_Delete_events [OF d] Some have
      "0 < length (p # ps) \<and>
       snd w' = snd w @ map (\<lambda>p. (CallDelete p, None)) (take 0 (p # ps))
                 @ [(CallDelete ((p # ps) ! 0), Some e)]" by simp
    then show ?thesis by blast
  qed
qed

text \<open>
  When the bound is at least the length of the list, the scale-down loop is the
  loop that deletes every listed pod.
\<close>

lemma scaleDown_all:
  "int (length items) \<le> n \<Longrightarrow> length items < 2147483648 \<Longrightarrow> 0 \<le> i \<Longrightarrow>
     scaleDown r w items i n = delete_each r w (drop (nat i) items)"
proof (induction r w items i n rule: scaleDown.induct)
  case (1 r w items i n)
  have len: "int32 (int (length items)) = int (length items)"
    using "1.prems" by (simp add: int32_length)
  show ?case
  proof (cases "i < int (length items)")
    case False
    with "1.prems" len show ?thesis by (simp add: scaleDown.simps)
  next
    case True
    with "1.prems" have c: "i < n \<and> i < int32 (int (length items))" using len by simp
    have d: "drop (nat i) items = items ! nat i # drop (nat (i + 1)) items"
      using True "1.prems" by (simp add: Cons_nth_drop_Suc nat_add_distrib)
    show ?thesis
    proof (cases "r_Delete r w (items ! nat i)")
      case (Pair w1 res)
      show ?thesis
      proof (cases res)
        case None
        have "scaleDown r w1 items (i + 1) n = delete_each r w1 (drop (nat (i + 1)) items)"
          using "1.IH" [OF c Pair [symmetric] None] "1.prems" by simp
        with Pair None c d show ?thesis
          by (simp add: scaleDown.simps [of r w])
      next
        case (Some e)
        with Pair c d show ?thesis by (simp add: scaleDown.simps [of r w])
      qed
    qed
  qed
qed

subsection \<open>The create loop\<close>

lemma createPodForMember_ok:
  "createPodForMember r w v m base i = (w', None) \<Longrightarrow>
     r_Create r w (ownedPod v m base i) = (w', None)"
  by (auto simp: createPodForMember_def SetControllerReference_def ownedPod_def
      split: if_splits sum.splits)

lemma scaleUp_ok_events:
  "scaleUp r w v m base i d = (w', None) \<Longrightarrow>
     snd w' = snd w @ map (\<lambda>j. (CallCreate (ownedPod v m base j), None)) [i..d - 1]"
proof (induction r w v m base i d rule: scaleUp.induct)
  case (1 r w v m base i d)
  show ?case
  proof (cases "i < d")
    case False
    with "1.prems" show ?thesis by (simp add: scaleUp.simps)
  next
    case True
    obtain w1 res where c: "createPodForMember r w v m base i = (w1, res)"
      by (cases "createPodForMember r w v m base i")
    with True "1.prems" have res: "res = None"
      and rest: "scaleUp r w1 v m base (i + 1) d = (w', None)"
      by (auto simp: scaleUp.simps [of r w] split: option.splits)
    from c res have "r_Create r w (ownedPod v m base i) = (w1, None)"
      by (simp add: createPodForMember_ok)
    then have e1: "snd w1 = snd w @ [(CallCreate (ownedPod v m base i), None)]"
      by (rule r_Create_events)
    have ih: "snd w' = snd w1 @ map (\<lambda>j. (CallCreate (ownedPod v m base j), None)) [i + 1..d - 1]"
      using "1.IH" [OF True c [symmetric] res rest] by simp
    have "[i..d - 1] = i # [i + 1..d - 1]" using True by (simp add: upto_rec1)
    with e1 ih show ?thesis by simp
  qed
qed

subsection \<open>The status write\<close>

lemma updateStatus_ok_last:
  assumes a: "updateStatus r w v st = (w', None)"
  shows "\<exists>u. last (snd w') = (CallStatusUpdate u, None)"
proof -
  obtain w1 cnt where c: "countReadyPods r w v = (w1, cnt)" by (cases "countReadyPods r w v")
  define st' where "st' = (case cnt of Inl e \<Rightarrow> st | Inr n \<Rightarrow> st\<lparr>ReadyPods := n\<rparr>)"
  obtain w2 res where u: "r_StatusUpdate r w1 (v\<lparr>vs_Status := st'\<rparr>) = (w2, res)"
    by (cases "r_StatusUpdate r w1 (v\<lparr>vs_Status := st'\<rparr>)")
  from a c u have "w2 = w'" and "err_of res = None"
    by (auto simp: updateStatus_def Let_def st'_def err_of_def split: sum.splits)
  with r_StatusUpdate_events [OF u] show ?thesis by simp
qed

lemma reconcileMembers_ReadyPods:
  "reconcileMembers r w v = (w', Inr st) \<Longrightarrow> ReadyPods st = 0"
  by (auto simp: reconcileMembers_def emptyStatus_def split: prod.splits sum.splits)

section \<open>The reconciler on the in-memory cluster\<close>

subsection \<open>The calls on the in-memory cluster\<close>

lemma mem_List:
  "r_List mem w ns sel = (w', res) \<Longrightarrow>
     fst w' = fst w \<and> (\<forall>items. res = Inr items \<longrightarrow> items = filter (selected ns sel) (c_pods (fst w)))"
  by (auto simp: r_List_def mem_def mList_def split: option.splits)

lemma mem_Delete_ok:
  "r_Delete mem w p = (w', None) \<Longrightarrow>
     fst w' = (fst w)\<lparr>c_pods := filter (\<lambda>q. pod_id q \<noteq> pod_id p) (c_pods (fst w))\<rparr>"
  by (auto simp: r_Delete_def mem_def mDelete_def split: option.splits if_splits)

lemma mem_Delete_err:
  "r_Delete mem w p = (w', Some e) \<Longrightarrow> fst w' = fst w"
  by (auto simp: r_Delete_def mem_def mDelete_def split: option.splits if_splits)

lemma mem_Create_ok:
  "r_Create mem w p = (w', None) \<Longrightarrow>
     fst w' = (fst w)\<lparr>c_pods := c_pods (fst w) @ [p]\<rparr> \<and> pod_id p \<notin> pod_id ` set (c_pods (fst w))"
  by (auto simp: r_Create_def mem_def mCreate_def split: option.splits if_splits)

lemma int32_le: "int32 (int n) \<le> int n"
proof -
  have "(int n + 2147483648) mod 4294967296 \<le> int n + 2147483648"
    by (rule zmod_le_nonneg_dividend) simp
  then show ?thesis by (simp add: int32_def)
qed

lemma mem_delete_each_ok:
  "delete_each mem w ps = (w', None) \<Longrightarrow>
     fst w' = (fst w)\<lparr>c_pods := filter (\<lambda>q. pod_id q \<notin> pod_id ` set ps) (c_pods (fst w))\<rparr>"
proof (induction ps arbitrary: w)
  case Nil
  then show ?case by simp
next
  case (Cons p ps)
  obtain w1 res where d: "r_Delete mem w p = (w1, res)" by (cases "r_Delete mem w p")
  with Cons.prems have res: "res = None" and rest: "delete_each mem w1 ps = (w', None)"
    by (auto split: option.splits)
  from d res have w1: "fst w1 = (fst w)\<lparr>c_pods := filter (\<lambda>q. pod_id q \<noteq> pod_id p) (c_pods (fst w))\<rparr>"
    by (simp add: mem_Delete_ok)
  have "filter (\<lambda>q. pod_id q \<notin> pod_id ` set ps) (filter (\<lambda>q. pod_id q \<noteq> pod_id p) (c_pods (fst w)))
      = filter (\<lambda>q. pod_id q \<notin> pod_id ` set (p # ps)) (c_pods (fst w))"
    by (auto intro: filter_cong)
  with Cons.IH [OF rest] w1 show ?case by simp
qed

lemma mem_scaleDown_ok:
  "scaleDown mem w items i n = (w', None) \<Longrightarrow> 0 \<le> i \<Longrightarrow>
     fst w' = (fst w)\<lparr>c_pods := filter
        (\<lambda>q. pod_id q \<notin> pod_id ` set (take (nat (min n (int32 (int (length items))) - i)) (drop (nat i) items)))
        (c_pods (fst w))\<rparr>"
proof (induction mem w items i n rule: scaleDown.induct)
  case (1 w items i n)
  let ?L = "int32 (int (length items))"
  show ?case
  proof (cases "i < n \<and> i < ?L")
    case False
    with "1.prems" have "w' = w" by (simp add: scaleDown.simps)
    moreover from False have "nat (min n ?L - i) = 0" by auto
    ultimately show ?thesis by simp
  next
    case True
    obtain w1 res where d: "r_Delete mem w (items ! nat i) = (w1, res)"
      by (cases "r_Delete mem w (items ! nat i)")
    with True "1.prems" have res: "res = None"
      and rest: "scaleDown mem w1 items (i + 1) n = (w', None)"
      by (auto simp: scaleDown.simps [of mem w] split: option.splits)
    have ih: "fst w' = (fst w1)\<lparr>c_pods := filter
        (\<lambda>q. pod_id q \<notin> pod_id ` set (take (nat (min n ?L - (i + 1))) (drop (nat (i + 1)) items)))
        (c_pods (fst w1))\<rparr>"
      using "1.hyps" [OF True d [symmetric] res rest] "1.prems" by simp
    from d res have w1: "fst w1 = (fst w)\<lparr>c_pods := filter (\<lambda>q. pod_id q \<noteq> pod_id (items ! nat i)) (c_pods (fst w))\<rparr>"
      by (simp add: mem_Delete_ok)
    have lt: "nat i < length items" using True int32_le [of "length items"] "1.prems" by linarith
    have k: "nat (min n ?L - i) = Suc (nat (min n ?L - (i + 1)))" using True by auto
    have dr: "drop (nat i) items = items ! nat i # drop (nat (i + 1)) items"
      using lt "1.prems" by (simp add: Cons_nth_drop_Suc nat_add_distrib)
    have "filter (\<lambda>q. pod_id q \<notin> pod_id ` set (take (nat (min n ?L - (i + 1))) (drop (nat (i + 1)) items)))
            (filter (\<lambda>q. pod_id q \<noteq> pod_id (items ! nat i)) (c_pods (fst w)))
        = filter (\<lambda>q. pod_id q \<notin> pod_id ` set (take (nat (min n ?L - i)) (drop (nat i) items)))
            (c_pods (fst w))"
      unfolding k dr by (auto intro: filter_cong)
    with ih w1 show ?thesis by simp
  qed
qed

lemma mem_createPodForMember_ok:
  "createPodForMember mem w v m base i = (w', None) \<Longrightarrow>
     fst w' = (fst w)\<lparr>c_pods := c_pods (fst w) @ [ownedPod v m base i]\<rparr>
     \<and> pod_id (ownedPod v m base i) \<notin> pod_id ` set (c_pods (fst w))"
  using mem_Create_ok [of w "ownedPod v m base i" w'] createPodForMember_ok [of mem w v m base i w']
  by simp

lemma mem_scaleUp_ok:
  "scaleUp mem w v m base i d = (w', None) \<Longrightarrow>
     fst w' = (fst w)\<lparr>c_pods := c_pods (fst w) @ map (ownedPod v m base) [i..d - 1]\<rparr>"
proof (induction mem w v m base i d rule: scaleUp.induct)
  case (1 w v m base i d)
  show ?case
  proof (cases "i < d")
    case False
    with "1.prems" show ?thesis by (simp add: scaleUp.simps)
  next
    case True
    obtain w1 res where c: "createPodForMember mem w v m base i = (w1, res)"
      by (cases "createPodForMember mem w v m base i")
    with True "1.prems" have res: "res = None"
      and rest: "scaleUp mem w1 v m base (i + 1) d = (w', None)"
      by (auto simp: scaleUp.simps [of mem w] split: option.splits)
    from c res have w1: "fst w1 = (fst w)\<lparr>c_pods := c_pods (fst w) @ [ownedPod v m base i]\<rparr>"
      by (simp add: mem_createPodForMember_ok)
    have ih: "fst w' = (fst w1)\<lparr>c_pods := c_pods (fst w1) @ map (ownedPod v m base) [i + 1..d - 1]\<rparr>"
      using "1.hyps" [OF True c [symmetric] res rest] by simp
    have "[i..d - 1] = i # [i + 1..d - 1]" using True by (simp add: upto_rec1)
    with ih w1 show ?thesis by simp
  qed
qed

lemma mem_scaleUp_distinct:
  "scaleUp mem w v m base i d = (w', None) \<Longrightarrow> distinct (map pod_id (c_pods (fst w))) \<Longrightarrow>
     distinct (map pod_id (c_pods (fst w')))"
proof (induction mem w v m base i d rule: scaleUp.induct)
  case (1 w v m base i d)
  show ?case
  proof (cases "i < d")
    case False
    with "1.prems" show ?thesis by (simp add: scaleUp.simps)
  next
    case True
    obtain w1 res where c: "createPodForMember mem w v m base i = (w1, res)"
      by (cases "createPodForMember mem w v m base i")
    with True "1.prems" have res: "res = None"
      and rest: "scaleUp mem w1 v m base (i + 1) d = (w', None)"
      by (auto simp: scaleUp.simps [of mem w] split: option.splits)
    from c res "1.prems" have "distinct (map pod_id (c_pods (fst w1)))"
      using mem_createPodForMember_ok [of w v m base i w1] by auto
    with "1.hyps" [OF True c [symmetric] res rest] show ?thesis by simp
  qed
qed

lemma selected_member:
  "selected ns (memberLabels m squad) q =
     (pod_namespace q = ns \<and> map_of (pod_labels q) ''app'' = Some ''virtsquad''
      \<and> map_of (pod_labels q) ''virtsquad.mshort55.io/member'' = Some m
      \<and> map_of (pod_labels q) ''virtsquad.mshort55.io/squad'' = Some squad)"
  by (auto simp: selected_def matchingLabels_def memberLabels_def)


lemma selected_ownedPod:
  "selected (vs_Namespace v) (memberLabels m' (vs_Name v)) (ownedPod v m base i) = (m' = m)"
  unfolding selected_member by (auto simp: ownedPod_def newPod_def memberLabels_def)


lemma filter_not_in_take:
  "distinct (map f xs) \<Longrightarrow> filter (\<lambda>q. f q \<notin> f ` set (take k xs)) xs = drop k xs"
proof (induction xs arbitrary: k)
  case Nil
  then show ?case by simp
next
  case (Cons x xs)
  show ?case
  proof (cases k)
    case 0
    then show ?thesis by simp
  next
    case (Suc j)
    from Cons.prems have nx: "f x \<notin> f ` set xs" and d: "distinct (map f xs)" by auto
    have "filter (\<lambda>q. f q \<notin> f ` set (take (Suc j) (x # xs))) xs
        = filter (\<lambda>q. f q \<notin> f ` set (take j xs)) xs"
    proof (intro filter_cong refl)
      fix q assume "q \<in> set xs"
      with nx have "f q \<noteq> f x" by (metis image_eqI)
      then show "(f q \<notin> f ` set (take (Suc j) (x # xs))) = (f q \<notin> f ` set (take j xs))"
        by auto
    qed
    with Cons.IH [OF d, of j] Suc show ?thesis by simp
  qed
qed

text \<open>The pods of a member after pods of that member were deleted.\<close>

lemma filter_deleted_same:
  assumes d: "distinct (map pod_id ps)"
  shows "filter P (filter (\<lambda>q. pod_id q \<notin> pod_id ` set (take k (filter P ps))) ps)
         = drop k (filter P ps)"
proof -
  have "filter P (filter (\<lambda>q. pod_id q \<notin> pod_id ` set (take k (filter P ps))) ps)
      = filter (\<lambda>q. pod_id q \<notin> pod_id ` set (take k (filter P ps))) (filter P ps)"
    by (auto intro: filter_cong)
  also have "\<dots> = drop k (filter P ps)"
    using d by (intro filter_not_in_take) (simp add: distinct_map_filter)
  finally show ?thesis .
qed

text \<open>The pods outside a deleted set are untouched.\<close>

lemma filter_deleted_other:
  assumes d: "distinct (map pod_id ps)"
    and sub: "set ds \<subseteq> set ps"
    and excl: "\<And>q. q \<in> set ds \<Longrightarrow> \<not> Q q"
  shows "filter Q (filter (\<lambda>q. pod_id q \<notin> pod_id ` set ds) ps) = filter Q ps"
proof -
  have "pod_id q \<notin> pod_id ` set ds" if q: "q \<in> set ps" "Q q" for q
  proof
    assume "pod_id q \<in> pod_id ` set ds"
    then obtain p where p: "p \<in> set ds" "pod_id p = pod_id q" by auto
    with sub q d have "p = q" by (auto simp: distinct_map dest: inj_onD)
    with p excl q show False by auto
  qed
  then show ?thesis by (auto intro: filter_cong)
qed

subsection \<open>The effect of one member's reconciliation on the cluster\<close>

lemma mem_deleteTeamMemberPods_ok:
  assumes ok: "deleteTeamMemberPods mem w v m = (w', Inr names)"
  shows "names = [] \<and> fst w' = (fst w)\<lparr>c_pods :=
           filter (\<lambda>q. pod_id q \<notin> pod_id ` set (group_pods (fst w) (vs_Namespace v) (vs_Name v) m))
             (c_pods (fst w))\<rparr>"
proof -
  obtain w1 lr where l: "r_List mem w (vs_Namespace v) (memberLabels m (vs_Name v)) = (w1, lr)"
    by (cases "r_List mem w (vs_Namespace v) (memberLabels m (vs_Name v))")
  from ok l obtain items where lr: "lr = Inr items"
    by (cases lr) (auto simp: deleteTeamMemberPods_def)
  from mem_List [OF l] lr have w1: "fst w1 = fst w"
    and items: "items = group_pods (fst w) (vs_Namespace v) (vs_Name v) m"
    by (auto simp: group_pods_def)
  obtain w2 res where d: "delete_each mem w1 items = (w2, res)"
    by (cases "delete_each mem w1 items")
  from ok l lr d have "res = None" "w2 = w'" "names = []"
    by (auto simp: deleteTeamMemberPods_def split: option.splits)
  with mem_delete_each_ok [of w1 items w'] d w1 items show ?thesis by simp
qed

lemma mem_reconcile_present_ok:
  assumes name: "tm_Name ms = Some base"
    and ok: "reconcileTeamMember mem w v m (Some ms) = (w', Inr names)"
    and items: "items = group_pods (fst w) (vs_Namespace v) (vs_Name v) m"
    and cur: "cur = int32 (int (length items))"
    and des: "d = (case tm_Replicas ms of None \<Rightarrow> 1 | Some d \<Rightarrow> d)"
  shows "names = map pod_name items \<and> fst w' = (fst w)\<lparr>c_pods :=
           (if cur < d then c_pods (fst w) @ map (ownedPod v m base) [cur..d - 1]
            else filter (\<lambda>q. pod_id q \<notin> pod_id ` set (take (nat (min (int32 (cur - d)) cur)) items))
                   (c_pods (fst w)))\<rparr>"
proof -
  obtain w1 lr where l: "r_List mem w (vs_Namespace v) (memberLabels m (vs_Name v)) = (w1, lr)"
    by (cases "r_List mem w (vs_Namespace v) (memberLabels m (vs_Name v))")
  from ok l name obtain its where lr: "lr = Inr its"
    by (cases lr) (auto simp: reconcileTeamMember_def)
  from mem_List [OF l] lr items have w1: "fst w1 = fst w" and its: "its = items"
    by (auto simp: group_pods_def)
  show ?thesis
  proof (cases "cur < d")
    case True
    obtain w2 res where up: "scaleUp mem w1 v m base cur d = (w2, res)"
      by (cases "scaleUp mem w1 v m base cur d")
    from ok name l lr its cur des True up have "res = None" "w2 = w'" "names = map pod_name items"
      by (auto simp: reconcileTeamMember_def Let_def split: option.splits)
    with mem_scaleUp_ok [of w1 v m base cur d w'] up w1 True show ?thesis by simp
  next
    case False
    show ?thesis
    proof (cases "d < cur")
      case True
      obtain w2 res where dn: "scaleDown mem w1 items 0 (int32 (cur - d)) = (w2, res)"
        by (cases "scaleDown mem w1 items 0 (int32 (cur - d))")
      from ok name l lr its cur des True False dn
      have "res = None" "w2 = w'" "names = map pod_name items"
        by (auto simp: reconcileTeamMember_def Let_def split: option.splits)
      with mem_scaleDown_ok [of w1 items 0 "int32 (cur - d)" w'] dn w1 cur False show ?thesis
        by simp
    next
      case nd: False
      with False have eq: "cur = d" by simp
      from ok name l lr its cur des eq have "w' = w1" "names = map pod_name items"
        by (auto simp: reconcileTeamMember_def Let_def)
      moreover have "int32 (cur - d) = 0" using eq by (simp add: int32_def)
      ultimately show ?thesis using w1 False by simp
    qed
  qed
qed

text \<open>
  Both cases have one shape: some first pods of the member are deleted and some new
  pods of the member are appended.
\<close>

lemma member_shape:
  assumes ok: "reconcileTeamMember mem w v m spec = (w', Inr names)"
    and items: "items = group_pods (fst w) (vs_Namespace v) (vs_Name v) m"
  shows "\<exists>k js base. fst w' = (fst w)\<lparr>c_pods :=
            filter (\<lambda>q. pod_id q \<notin> pod_id ` set (take k items)) (c_pods (fst w))
            @ map (ownedPod v m base) js\<rparr>
          \<and> (names = map pod_name items \<or> names = [] \<and> length items \<le> k \<and> js = [])"
proof -
  consider (absent) "spec = None \<or> (\<exists>ms. spec = Some ms \<and> tm_Name ms = None)"
    | (present) ms base where "spec = Some ms" "tm_Name ms = Some base"
    by (cases spec) auto
  then show ?thesis
  proof cases
    case absent
    with ok have "deleteTeamMemberPods mem w v m = (w', Inr names)"
      by (auto simp: reconcileTeamMember_def)
    from mem_deleteTeamMemberPods_ok [OF this] items
    have "fst w' = (fst w)\<lparr>c_pods :=
            filter (\<lambda>q. pod_id q \<notin> pod_id ` set (take (length items) items)) (c_pods (fst w))
            @ map (ownedPod v m []) []\<rparr>
          \<and> (names = map pod_name items \<or> names = [] \<and> length items \<le> length items \<and> ([]::int list) = [])"
      by simp
    then show ?thesis by blast
  next
    case present
    let ?cur = "int32 (int (length items))"
    let ?d = "case tm_Replicas ms of None \<Rightarrow> 1 | Some d \<Rightarrow> d"
    from ok present have ok': "reconcileTeamMember mem w v m (Some ms) = (w', Inr names)" by simp
    note e = mem_reconcile_present_ok [OF present(2) ok' items refl refl]
    show ?thesis
    proof (cases "?cur < ?d")
      case True
      with e have "fst w' = (fst w)\<lparr>c_pods :=
            filter (\<lambda>q. pod_id q \<notin> pod_id ` set (take 0 items)) (c_pods (fst w))
            @ map (ownedPod v m base) [?cur..?d - 1]\<rparr>
          \<and> (names = map pod_name items \<or> names = [] \<and> length items \<le> 0 \<and> [?cur..?d - 1] = [])"
        by simp
      then show ?thesis by blast
    next
      case False
      with e have "fst w' = (fst w)\<lparr>c_pods :=
            filter (\<lambda>q. pod_id q \<notin> pod_id ` set (take (nat (min (int32 (?cur - ?d)) ?cur)) items)) (c_pods (fst w))
            @ map (ownedPod v m base) []\<rparr>
          \<and> (names = map pod_name items \<or> names = [] \<and> length items \<le> (nat (min (int32 (?cur - ?d)) ?cur)) \<and> ([]::int list) = [])"
        by simp
      then show ?thesis by blast
    qed
  qed
qed

lemma shape_same_group:
  assumes sh: "c_pods s' = filter (\<lambda>q. pod_id q \<notin> pod_id ` set (take k (group_pods s (vs_Namespace v) (vs_Name v) m))) (c_pods s)
            @ map (ownedPod v m base) js"
    and d: "distinct (map pod_id (c_pods s))"
  shows "group_pods s' (vs_Namespace v) (vs_Name v) m
         = drop k (group_pods s (vs_Namespace v) (vs_Name v) m) @ map (ownedPod v m base) js"
proof -
  have "filter (selected (vs_Namespace v) (memberLabels m (vs_Name v))) (map (ownedPod v m base) js)
        = map (ownedPod v m base) js"
    by (simp add: filter_map o_def selected_ownedPod)
  with filter_deleted_same [OF d, of "selected (vs_Namespace v) (memberLabels m (vs_Name v))" k] sh
  show ?thesis by (simp add: group_pods_def)
qed

lemma shape_other_group:
  assumes sh: "c_pods s' = filter (\<lambda>q. pod_id q \<notin> pod_id ` set (take k (group_pods s (vs_Namespace v) (vs_Name v) m))) (c_pods s)
            @ map (ownedPod v m base) js"
    and d: "distinct (map pod_id (c_pods s))"
    and ne: "m' \<noteq> m"
  shows "group_pods s' (vs_Namespace v) (vs_Name v) m' = group_pods s (vs_Namespace v) (vs_Name v) m'"
proof -
  let ?Q = "selected (vs_Namespace v) (memberLabels m' (vs_Name v))"
  let ?ds = "take k (group_pods s (vs_Namespace v) (vs_Name v) m)"
  have new: "filter ?Q (map (ownedPod v m base) js) = []"
    using ne by (simp add: filter_map o_def selected_ownedPod)
  have sub: "set ?ds \<subseteq> set (c_pods s)"
    by (auto simp: group_pods_def dest: in_set_takeD)
  have excl: "\<not> ?Q q" if "q \<in> set ?ds" for q
  proof -
    from that have "selected (vs_Namespace v) (memberLabels m (vs_Name v)) q"
      by (auto simp: group_pods_def dest: in_set_takeD)
    with ne show ?thesis by (auto simp: selected_member)
  qed
  from filter_deleted_other [OF d sub excl] new sh show ?thesis
    by (simp add: group_pods_def)
qed

lemma shape_distinct:
  assumes ok: "reconcileTeamMember mem w v m spec = (w', Inr names)"
    and d: "distinct (map pod_id (c_pods (fst w)))"
  shows "distinct (map pod_id (c_pods (fst w')))"
proof -
  consider (absent) "spec = None \<or> (\<exists>ms. spec = Some ms \<and> tm_Name ms = None)"
    | (present) ms base where "spec = Some ms" "tm_Name ms = Some base"
    by (cases spec) auto
  then show ?thesis
  proof cases
    case absent
    with ok have "deleteTeamMemberPods mem w v m = (w', Inr names)"
      by (auto simp: reconcileTeamMember_def)
    from mem_deleteTeamMemberPods_ok [OF this] d show ?thesis
      by (simp add: distinct_map_filter)
  next
    case present
    obtain w1 lr where l: "r_List mem w (vs_Namespace v) (memberLabels m (vs_Name v)) = (w1, lr)"
      by (cases "r_List mem w (vs_Namespace v) (memberLabels m (vs_Name v))")
    from ok l present obtain its where lr: "lr = Inr its"
      by (cases lr) (auto simp: reconcileTeamMember_def)
    from mem_List [OF l] have w1: "fst w1 = fst w" by simp
    let ?cur = "int32 (int (length its))"
    let ?d = "case tm_Replicas ms of None \<Rightarrow> 1 | Some d \<Rightarrow> d"
    show ?thesis
    proof (cases "?cur < ?d")
      case True
      obtain w2 res where up: "scaleUp mem w1 v m base ?cur ?d = (w2, res)"
        by (cases "scaleUp mem w1 v m base ?cur ?d")
      from ok present l lr True up have "res = None" "w2 = w'"
        by (auto simp: reconcileTeamMember_def Let_def split: option.splits)
      with mem_scaleUp_distinct [of w1 v m base ?cur ?d w'] up w1 d show ?thesis by simp
    next
      case False
      from ok present have ok': "reconcileTeamMember mem w v m (Some ms) = (w', Inr names)" by simp
      from mem_List [OF l] lr have "its = group_pods (fst w) (vs_Namespace v) (vs_Name v) m"
        by (auto simp: group_pods_def)
      from mem_reconcile_present_ok [OF present(2) ok' this refl refl] False d
      show ?thesis by (simp add: distinct_map_filter)
    qed
  qed
qed


lemma mem_delete_each_total:
  assumes nf: "c_faults s = no_faults"
    and dist: "distinct (map pod_id ps)"
    and sub: "pod_id ` set ps \<subseteq> pod_id ` set (c_pods s)"
  shows "delete_each mem (s, tr) ps =
           ((s\<lparr>c_pods := filter (\<lambda>q. pod_id q \<notin> pod_id ` set ps) (c_pods s)\<rparr>,
             tr @ map (\<lambda>p. (CallDelete p, None)) ps), None)"
  using assms
proof (induction ps arbitrary: s tr)
  case Nil
  then show ?case by simp
next
  case (Cons p ps)
  let ?s1 = "s\<lparr>c_pods := filter (\<lambda>q. pod_id q \<noteq> pod_id p) (c_pods s)\<rparr>"
  have d: "r_Delete mem (s, tr) p = ((?s1, tr @ [(CallDelete p, None)]), None)"
    using Cons.prems by (auto simp: r_Delete_def mem_def mDelete_def no_faults_def)
  have nf1: "c_faults ?s1 = no_faults" using Cons.prems by simp
  have dist1: "distinct (map pod_id ps)" using Cons.prems by simp
  have sub1: "pod_id ` set ps \<subseteq> pod_id ` set (c_pods ?s1)"
  proof
    fix i assume i: "i \<in> pod_id ` set ps"
    from Cons.prems have "pod_id p \<notin> pod_id ` set ps" by simp
    with i have ne: "i \<noteq> pod_id p" by blast
    from i Cons.prems have "i \<in> pod_id ` set (c_pods s)" by auto
    then obtain q where q: "q \<in> set (c_pods s)" "pod_id q = i" by auto
    with ne have "q \<in> set (c_pods ?s1)" by simp
    with q show "i \<in> pod_id ` set (c_pods ?s1)" by (metis image_eqI)
  qed
  have "filter (\<lambda>q. pod_id q \<notin> pod_id ` set ps) (filter (\<lambda>q. pod_id q \<noteq> pod_id p) (c_pods s))
      = filter (\<lambda>q. pod_id q \<notin> pod_id ` set (p # ps)) (c_pods s)"
    by (auto intro: filter_cong)
  with Cons.IH [OF nf1 dist1 sub1, of "tr @ [(CallDelete p, None)]"] d show ?case by simp
qed

subsection \<open>The resource and its finalization on the in-memory cluster\<close>

lemma mem_Get:
  "r_Get mem w k = (w', res) \<Longrightarrow> fst w' = fst w"
  by (auto simp: r_Get_def mem_def mGet_def split: option.splits)

lemma mem_Update_err:
  "r_Update mem w v = (w', Inl e) \<Longrightarrow> fst w' = fst w"
  by (auto simp: r_Update_def mem_def mUpdate_def Let_def split: option.splits)

lemma mem_Update_ok:
  "r_Update mem w v = (w', Inr x) \<Longrightarrow>
     c_pods (fst w') = c_pods (fst w) \<and> c_faults (fst w') = c_faults (fst w)
     \<and> vs_Name x = vs_Name v \<and> vs_Namespace x = vs_Namespace v \<and> vs_Spec x = vs_Spec v
     \<and> vs_Finalizers x = vs_Finalizers v \<and> vs_DeletionTimestamp x = vs_DeletionTimestamp v
     \<and> c_squads (fst w') =
          (if vs_DeletionTimestamp v \<noteq> None \<and> vs_Finalizers v = []
           then filter (\<lambda>y. vs_key y \<noteq> vs_key v) (c_squads (fst w))
           else map (\<lambda>y. if vs_key y = vs_key v then x else y) (c_squads (fst w)))"
  by (auto simp: r_Update_def mem_def mUpdate_def Let_def split: option.splits)

lemma mem_delete_each_frame:
  "delete_each mem w ps = (w', res) \<Longrightarrow>
     c_squads (fst w') = c_squads (fst w) \<and> c_faults (fst w') = c_faults (fst w)"
proof (induction ps arbitrary: w)
  case Nil
  then show ?case by simp
next
  case (Cons p ps)
  obtain w1 r1 where d: "r_Delete mem w p = (w1, r1)" by (cases "r_Delete mem w p")
  then have f: "c_squads (fst w1) = c_squads (fst w) \<and> c_faults (fst w1) = c_faults (fst w)"
    by (cases r1) (auto dest: mem_Delete_ok mem_Delete_err)
  show ?case
  proof (cases r1)
    case None
    with Cons.prems d have "delete_each mem w1 ps = (w', res)" by simp
    from Cons.IH [OF this] f show ?thesis by simp
  next
    case (Some e)
    with Cons.prems d f show ?thesis by auto
  qed
qed

lemma mem_finalize_frame:
  "finalizeVirtSquad mem w v = (w', res) \<Longrightarrow>
     c_squads (fst w') = c_squads (fst w) \<and> c_faults (fst w') = c_faults (fst w)"
proof -
  assume a: "finalizeVirtSquad mem w v = (w', res)"
  obtain w1 lr where l: "r_List mem w (vs_Namespace v) (squadLabels (vs_Name v)) = (w1, lr)"
    by (cases "r_List mem w (vs_Namespace v) (squadLabels (vs_Name v))")
  from mem_List [OF l] have w1: "fst w1 = fst w" by simp
  show ?thesis
  proof (cases lr)
    case (Inl e)
    with a l w1 show ?thesis by (auto simp: finalizeVirtSquad_def)
  next
    case (Inr items)
    with a l have "delete_each mem w1 items = (w', res)" by (simp add: finalizeVirtSquad_def)
    from mem_delete_each_frame [OF this] w1 show ?thesis by simp
  qed
qed

text \<open>The calls of a finalization: one list call, then delete calls.\<close>

lemma finalize_events:
  assumes a: "finalizeVirtSquad r w v = (w', res)"
  shows "\<exists>evs. snd w' = snd w @ evs \<and> (\<forall>ev \<in> set evs. call_kind (fst ev) \<noteq> ''Update'')
           \<and> (res = None \<longrightarrow> (\<forall>ev \<in> set evs. snd ev = None))"
proof -
  obtain w1 lr where l: "r_List r w (vs_Namespace v) (squadLabels (vs_Name v)) = (w1, lr)"
    by (cases "r_List r w (vs_Namespace v) (squadLabels (vs_Name v))")
  note le = r_List_events [OF l]
  show ?thesis
  proof (cases lr)
    case (Inl e)
    with a l le show ?thesis by (auto simp: finalizeVirtSquad_def call_kind_def)
  next
    case (Inr items)
    with a l have d: "delete_each r w1 items = (w', res)" by (simp add: finalizeVirtSquad_def)
    show ?thesis
    proof (cases res)
      case None
      with delete_each_ok [of r w1 items w'] d le Inr show ?thesis
        by (auto simp: call_kind_def err_of_def)
    next
      case (Some e)
      with delete_each_err [of r w1 items w' e] d le show ?thesis
        by (auto simp: call_kind_def)
    qed
  qed
qed

lemma mem_finalize_ok_pods:
  assumes a: "finalizeVirtSquad mem w v = (w', None)"
  shows "squad_pods (fst w') (vs_Namespace v) (vs_Name v) = []"
proof -
  obtain w1 lr where l: "r_List mem w (vs_Namespace v) (squadLabels (vs_Name v)) = (w1, lr)"
    by (cases "r_List mem w (vs_Namespace v) (squadLabels (vs_Name v))")
  from a l obtain items where lr: "lr = Inr items"
    by (cases lr) (auto simp: finalizeVirtSquad_def)
  from mem_List [OF l] lr have w1: "fst w1 = fst w"
    and items: "items = filter (selected (vs_Namespace v) (squadLabels (vs_Name v))) (c_pods (fst w))"
    by auto
  from a l lr have "delete_each mem w1 items = (w', None)" by (simp add: finalizeVirtSquad_def)
  from mem_delete_each_ok [OF this] w1 items show ?thesis
    by (auto simp: squad_pods_def filter_empty_conv)
qed

subsection \<open>Settled members\<close>

lemma int32_high:
  assumes a: "2147483648 \<le> x" "x < 6442450944"
  shows "int32 x = x - 4294967296"
proof -
  have "(x + 2147483648) mod 4294967296 = (x + 2147483648 - 4294967296) mod 4294967296"
    by (rule minus_mod_self2 [symmetric])
  also have "\<dots> = x + 2147483648 - 4294967296"
    using a by (intro mod_pos_pos_trivial) simp_all
  finally show ?thesis unfolding int32_def by simp
qed

lemma settled_no_mutation:
  assumes q: "settled s (vs_Namespace v) (vs_Name v) m spec"
    and r: "reconcileTeamMember mem (s, tr) v m spec = (w', res)"
  shows "fst w' = s \<and> (\<exists>e. snd w' = tr @ [(CallList (vs_Namespace v) (memberLabels m (vs_Name v)), e)])"
proof -
  let ?ns = "vs_Namespace v" and ?sel = "memberLabels m (vs_Name v)"
  obtain w1 lr where l: "r_List mem (s, tr) ?ns ?sel = (w1, lr)"
    by (cases "r_List mem (s, tr) ?ns ?sel")
  from mem_List [OF l] have w1: "fst w1 = s" by simp
  from r_List_events [OF l] have e1: "snd w1 = tr @ [(CallList ?ns ?sel, err_of lr)]" by simp
  show ?thesis
  proof (cases lr)
    case (Inl e)
    with r l have "w' = w1"
      by (auto simp: reconcileTeamMember_def deleteTeamMemberPods_def Let_def split: option.splits)
    with w1 e1 show ?thesis by simp
  next
    case (Inr items)
    with mem_List [OF l] have items: "items = group_pods s ?ns (vs_Name v) m"
      by (simp add: group_pods_def)
    consider (absent) "spec = None \<or> (\<exists>ms. spec = Some ms \<and> tm_Name ms = None)"
      | (present) ms base where "spec = Some ms" "tm_Name ms = Some base"
      by (cases spec) auto
    then have "w' = w1"
    proof cases
      case absent
      with q items have "items = []" by (auto simp: settled_def Let_def)
      with r l Inr absent show ?thesis
        by (auto simp: reconcileTeamMember_def deleteTeamMemberPods_def)
    next
      case present
      let ?n = "int (length items)"
      let ?d = "case tm_Replicas ms of None \<Rightarrow> 1 | Some d \<Rightarrow> d"
      from q present items have b: "?n < 2147483648" "?d \<le> ?n" "?n = 0 \<or> int32 (?n - ?d) \<le> 0"
        by (auto simp: settled_def Let_def)
      then have cur: "int32 ?n = ?n" by (simp add: int32_def)
      have sd: "scaleDown mem w1 items 0 (int32 (?n - ?d)) = (w1, None)"
        using b cur by (auto simp: scaleDown.simps [of mem w1 items 0])
      from b have nlt: "\<not> ?n < ?d" by simp
      from r l Inr present show ?thesis
        by (simp add: reconcileTeamMember_def Let_def cur nlt sd split: if_splits)
    qed
    with w1 e1 show ?thesis by simp
  qed
qed

lemma member_step:
  assumes ok: "reconcileTeamMember mem w v m spec = (w', Inr names)"
    and dist: "distinct (map pod_id (c_pods (fst w)))"
  shows "distinct (map pod_id (c_pods (fst w')))"
    and "c_squads (fst w') = c_squads (fst w)"
    and "c_faults (fst w') = c_faults (fst w)"
    and "m' \<noteq> m \<Longrightarrow> group_pods (fst w') (vs_Namespace v) (vs_Name v) m'
                       = group_pods (fst w) (vs_Namespace v) (vs_Name v) m'"
proof -
  show "distinct (map pod_id (c_pods (fst w')))" by (rule shape_distinct [OF ok dist])
  from member_shape [OF ok refl] obtain k js base where
    sh: "fst w' = (fst w)\<lparr>c_pods :=
            filter (\<lambda>q. pod_id q \<notin> pod_id ` set (take k (group_pods (fst w) (vs_Namespace v) (vs_Name v) m)))
              (c_pods (fst w)) @ map (ownedPod v m base) js\<rparr>" by blast
  then show "c_squads (fst w') = c_squads (fst w)" "c_faults (fst w') = c_faults (fst w)" by simp_all
  from sh have cp: "c_pods (fst w') =
            filter (\<lambda>q. pod_id q \<notin> pod_id ` set (take k (group_pods (fst w) (vs_Namespace v) (vs_Name v) m)))
              (c_pods (fst w)) @ map (ownedPod v m base) js" by simp
  show "group_pods (fst w') (vs_Namespace v) (vs_Name v) m'
          = group_pods (fst w) (vs_Namespace v) (vs_Name v) m'" if "m' \<noteq> m"
    by (rule shape_other_group [OF cp dist that])
qed

lemma member_settles:
  assumes ok: "reconcileTeamMember mem w v m spec = (w', Inr names)"
    and dist: "distinct (map pod_id (c_pods (fst w)))"
    and small: "length (group_pods (fst w) (vs_Namespace v) (vs_Name v) m) < 2147483648"
    and range: "replicas_int32 spec"
  shows "settled (fst w') (vs_Namespace v) (vs_Name v) m spec"
proof -
  let ?items = "group_pods (fst w) (vs_Namespace v) (vs_Name v) m"
  let ?n = "int (length ?items)"
  consider (absent) "spec = None \<or> (\<exists>ms. spec = Some ms \<and> tm_Name ms = None)"
    | (present) ms base where "spec = Some ms" "tm_Name ms = Some base"
    by (cases spec) auto
  then show ?thesis
  proof cases
    case absent
    with ok have "deleteTeamMemberPods mem w v m = (w', Inr names)"
      by (auto simp: reconcileTeamMember_def)
    from mem_deleteTeamMemberPods_ok [OF this]
    have "c_pods (fst w') = filter (\<lambda>q. pod_id q \<notin> pod_id ` set (take (length ?items) ?items))
              (c_pods (fst w)) @ map (ownedPod v m []) []" by simp
    from shape_same_group [OF this dist]
    have "group_pods (fst w') (vs_Namespace v) (vs_Name v) m = []" by simp
    with absent show ?thesis by (auto simp: settled_def)
  next
    case present
    let ?d = "case tm_Replicas ms of None \<Rightarrow> 1 | Some d \<Rightarrow> d"
    from range present have dr: "is_int32 ?d"
      by (auto simp: replicas_int32_def is_int32_def split: option.splits)
    from small have cur: "int32 ?n = ?n" by (simp add: int32_def)
    from ok present have ok': "reconcileTeamMember mem w v m (Some ms) = (w', Inr names)" by simp
    note e = mem_reconcile_present_ok [OF present(2) ok' refl refl refl, unfolded cur]
    show ?thesis
    proof (cases "?n < ?d")
      case True
      with e have "c_pods (fst w') = filter (\<lambda>q. pod_id q \<notin> pod_id ` set (take 0 ?items))
              (c_pods (fst w)) @ map (ownedPod v m base) [?n..?d - 1]" by simp
      from shape_same_group [OF this dist]
      have "int (length (group_pods (fst w') (vs_Namespace v) (vs_Name v) m)) = ?d"
        using True by simp
      with present dr show ?thesis
        by (simp add: settled_def Let_def is_int32_def int32_def)
    next
      case False
      define k where "k = nat (min (int32 (?n - ?d)) ?n)"
      from False e have "c_pods (fst w') = filter (\<lambda>q. pod_id q \<notin> pod_id ` set (take k ?items))
              (c_pods (fst w)) @ map (ownedPod v m base) []" by (simp add: k_def)
      from shape_same_group [OF this dist]
      have len: "int (length (group_pods (fst w') (vs_Namespace v) (vs_Name v) m)) = ?n - int k"
        unfolding k_def by simp
      from False have dn: "?d \<le> ?n" by simp
      from small have n: "?n < 2147483648" by simp
      have "?n - int k < 2147483648 \<and> ?d \<le> ?n - int k
            \<and> (?n - int k = 0 \<or> int32 (?n - int k - ?d) \<le> 0)"
      proof (cases "?n - ?d < 2147483648")
        case True
        with dn have i: "int32 (?n - ?d) = ?n - ?d" by (simp add: int32_def)
        show ?thesis
        proof (cases "0 \<le> ?d")
          case True
          with i dn have "int k = ?n - ?d" by (simp add: k_def)
          then have "?n - int k = ?d" by simp
          with dn n show ?thesis by (simp add: int32_def)
        next
          case n0: False
          with i have "int k = ?n" by (simp add: k_def)
          with n0 show ?thesis by simp
        qed
      next
        case big: False
        from dr have "- 2147483648 \<le> ?d" by (simp add: is_int32_def)
        with big n have i: "int32 (?n - ?d) = ?n - ?d - 4294967296"
          by (intro int32_high) simp_all
        with n \<open>- 2147483648 \<le> ?d\<close> have neg: "int32 (?n - ?d) \<le> 0" by simp
        with i n have k0: "k = 0" by (simp add: k_def)
        with n dn neg show ?thesis by simp
      qed
      with len present show ?thesis by (simp add: settled_def Let_def)
    qed
  qed
qed

lemma settled_cong:
  "group_pods s' ns sq m = group_pods s ns sq m \<Longrightarrow> settled s ns sq m spec \<Longrightarrow>
     settled s' ns sq m spec"
  by (simp add: settled_def)

lemma group_small: "length (group_pods s ns sq m) \<le> length (c_pods s)"
  by (simp add: group_pods_def)

lemma reconcileMembers_ok_steps:
  assumes ok: "reconcileMembers r w v = (w', Inr st)"
  obtains w1 w2 w3 n1 n2 n3 n4 where
    "reconcileTeamMember r w v ''oksana'' (Oksana (vs_Spec v)) = (w1, Inr n1)"
    "reconcileTeamMember r w1 v ''kurtis'' (Kurtis (vs_Spec v)) = (w2, Inr n2)"
    "reconcileTeamMember r w2 v ''matt'' (Matt (vs_Spec v)) = (w3, Inr n3)"
    "reconcileTeamMember r w3 v ''kike'' (Kike (vs_Spec v)) = (w', Inr n4)"
    "st = emptyStatus\<lparr> OksanaPods := n1, KurtisPods := n2, MattPods := n3, KikePods := n4,
            TotalPods := int32 (int (length n1 + length n2 + length n3 + length n4)) \<rparr>"
proof -
  obtain w1 r1 where s1: "reconcileTeamMember r w v ''oksana'' (Oksana (vs_Spec v)) = (w1, r1)"
    by (cases "reconcileTeamMember r w v ''oksana'' (Oksana (vs_Spec v))")
  obtain w2 r2 where s2: "reconcileTeamMember r w1 v ''kurtis'' (Kurtis (vs_Spec v)) = (w2, r2)"
    by (cases "reconcileTeamMember r w1 v ''kurtis'' (Kurtis (vs_Spec v))")
  obtain w3 r3 where s3: "reconcileTeamMember r w2 v ''matt'' (Matt (vs_Spec v)) = (w3, r3)"
    by (cases "reconcileTeamMember r w2 v ''matt'' (Matt (vs_Spec v))")
  obtain w4 r4 where s4: "reconcileTeamMember r w3 v ''kike'' (Kike (vs_Spec v)) = (w4, r4)"
    by (cases "reconcileTeamMember r w3 v ''kike'' (Kike (vs_Spec v))")
  from ok s1 obtain n1 where r1: "r1 = Inr n1"
    by (cases r1) (simp_all add: reconcileMembers_def)
  from ok s1 r1 s2 obtain n2 where r2: "r2 = Inr n2"
    by (cases r2) (simp_all add: reconcileMembers_def)
  from ok s1 r1 s2 r2 s3 obtain n3 where r3: "r3 = Inr n3"
    by (cases r3) (simp_all add: reconcileMembers_def)
  from ok s1 r1 s2 r2 s3 r3 s4 obtain n4 where r4: "r4 = Inr n4"
    by (cases r4) (simp_all add: reconcileMembers_def)
  from s1 r1 s2 r2 s3 r3 s4 r4 have "reconcileMembers r w v =
      (w4, Inr (emptyStatus\<lparr> OksanaPods := n1, KurtisPods := n2, MattPods := n3, KikePods := n4,
            TotalPods := int32 (int (length n1 + length n2 + length n3 + length n4)) \<rparr>))"
    by (simp add: reconcileMembers_def)
  with ok have "w4 = w'"
    and "st = emptyStatus\<lparr> OksanaPods := n1, KurtisPods := n2, MattPods := n3, KikePods := n4,
            TotalPods := int32 (int (length n1 + length n2 + length n3 + length n4)) \<rparr>"
    by simp_all
  with s1 r1 s2 r2 s3 r3 s4 r4 that show ?thesis by blast
qed

lemma reconcileMembers_settles:
  assumes ok: "reconcileMembers mem w v = (w', Inr st)"
    and dist: "distinct (map pod_id (c_pods (fst w)))"
    and small: "length (c_pods (fst w)) < 2147483648"
    and range: "spec_int32 (vs_Spec v)"
  shows "settled (fst w') (vs_Namespace v) (vs_Name v) ''oksana'' (Oksana (vs_Spec v))
       \<and> settled (fst w') (vs_Namespace v) (vs_Name v) ''kurtis'' (Kurtis (vs_Spec v))
       \<and> settled (fst w') (vs_Namespace v) (vs_Name v) ''matt'' (Matt (vs_Spec v))
       \<and> settled (fst w') (vs_Namespace v) (vs_Name v) ''kike'' (Kike (vs_Spec v))
       \<and> c_squads (fst w') = c_squads (fst w) \<and> c_faults (fst w') = c_faults (fst w)
       \<and> distinct (map pod_id (c_pods (fst w')))"
proof -
  let ?ns = "vs_Namespace v" and ?sq = "vs_Name v"
  let ?g = "\<lambda>x m. group_pods (fst x) ?ns ?sq m"
  from ok obtain w1 w2 w3 n1 n2 n3 n4 where
    s1: "reconcileTeamMember mem w v ''oksana'' (Oksana (vs_Spec v)) = (w1, Inr n1)" and
    s2: "reconcileTeamMember mem w1 v ''kurtis'' (Kurtis (vs_Spec v)) = (w2, Inr n2)" and
    s3: "reconcileTeamMember mem w2 v ''matt'' (Matt (vs_Spec v)) = (w3, Inr n3)" and
    s4: "reconcileTeamMember mem w3 v ''kike'' (Kike (vs_Spec v)) = (w', Inr n4)"
    by (rule reconcileMembers_ok_steps)
  from range have r: "replicas_int32 (Oksana (vs_Spec v))" "replicas_int32 (Kurtis (vs_Spec v))"
    "replicas_int32 (Matt (vs_Spec v))" "replicas_int32 (Kike (vs_Spec v))"
    by (simp_all add: spec_int32_def)
  have b: "length (?g w m) < 2147483648" for m
    using group_small [of "fst w" ?ns ?sq m] small by simp
  note a1 = member_step [OF s1 dist]
  note a2 = member_step [OF s2 a1(1)]
  note a3 = member_step [OF s3 a2(1)]
  note a4 = member_step [OF s4 a3(1)]
  have q1: "settled (fst w1) ?ns ?sq ''oksana'' (Oksana (vs_Spec v))"
    by (rule member_settles [OF s1 dist b r(1)])
  have "?g w1 ''kurtis'' = ?g w ''kurtis''" by (rule a1(4)) simp
  with b have "length (?g w1 ''kurtis'') < 2147483648" by simp
  then have q2: "settled (fst w2) ?ns ?sq ''kurtis'' (Kurtis (vs_Spec v))"
    by (rule member_settles [OF s2 a1(1) _ r(2)])
  have "?g w2 ''matt'' = ?g w1 ''matt''" by (rule a2(4)) simp
  also have "\<dots> = ?g w ''matt''" by (rule a1(4)) simp
  finally have "length (?g w2 ''matt'') < 2147483648" using b by simp
  then have q3: "settled (fst w3) ?ns ?sq ''matt'' (Matt (vs_Spec v))"
    by (rule member_settles [OF s3 a2(1) _ r(3)])
  have "?g w3 ''kike'' = ?g w2 ''kike''" by (rule a3(4)) simp
  also have "\<dots> = ?g w1 ''kike''" by (rule a2(4)) simp
  also have "\<dots> = ?g w ''kike''" by (rule a1(4)) simp
  finally have "length (?g w3 ''kike'') < 2147483648" using b by simp
  then have q4: "settled (fst w') ?ns ?sq ''kike'' (Kike (vs_Spec v))"
    by (rule member_settles [OF s4 a3(1) _ r(4)])
  have "?g w' ''oksana'' = ?g w3 ''oksana''" by (rule a4(4)) simp
  also have "\<dots> = ?g w2 ''oksana''" by (rule a3(4)) simp
  also have "\<dots> = ?g w1 ''oksana''" by (rule a2(4)) simp
  finally have f1: "settled (fst w') ?ns ?sq ''oksana'' (Oksana (vs_Spec v))"
    using q1 by (rule settled_cong)
  have "?g w' ''kurtis'' = ?g w3 ''kurtis''" by (rule a4(4)) simp
  also have "\<dots> = ?g w2 ''kurtis''" by (rule a3(4)) simp
  finally have f2: "settled (fst w') ?ns ?sq ''kurtis'' (Kurtis (vs_Spec v))"
    using q2 by (rule settled_cong)
  have "?g w' ''matt'' = ?g w3 ''matt''" by (rule a4(4)) simp
  then have f3: "settled (fst w') ?ns ?sq ''matt'' (Matt (vs_Spec v))"
    using q3 by (rule settled_cong)
  have "c_squads (fst w') = c_squads (fst w)" using a1(2) a2(2) a3(2) a4(2) by simp
  moreover have "c_faults (fst w') = c_faults (fst w)" using a1(3) a2(3) a3(3) a4(3) by simp
  ultimately show ?thesis using f1 f2 f3 q4 a4(1) by blast
qed

lemma reconcileMembers_settled_no_mutation:
  assumes q: "settled s (vs_Namespace v) (vs_Name v) ''oksana'' (Oksana (vs_Spec v))"
      "settled s (vs_Namespace v) (vs_Name v) ''kurtis'' (Kurtis (vs_Spec v))"
      "settled s (vs_Namespace v) (vs_Name v) ''matt'' (Matt (vs_Spec v))"
      "settled s (vs_Namespace v) (vs_Name v) ''kike'' (Kike (vs_Spec v))"
    and r: "reconcileMembers mem (s, tr) v = (w', res)"
  shows "fst w' = s \<and> (\<exists>evs. snd w' = tr @ evs \<and> (\<forall>ev \<in> set evs. \<not> mutation ev))"
proof -
  let ?L = "\<lambda>m e. (CallList (vs_Namespace v) (memberLabels m (vs_Name v)), e)"
  have nm: "\<not> mutation (?L m e)" for m e by (simp add: mutation_def call_kind_def)
  obtain w1 r1 where s1: "reconcileTeamMember mem (s, tr) v ''oksana'' (Oksana (vs_Spec v)) = (w1, r1)"
    by (cases "reconcileTeamMember mem (s, tr) v ''oksana'' (Oksana (vs_Spec v))")
  from settled_no_mutation [OF q(1) s1] obtain e1 where
    w1: "w1 = (s, tr @ [?L ''oksana'' e1])" by (cases w1) auto
  obtain w2 r2 where s2: "reconcileTeamMember mem w1 v ''kurtis'' (Kurtis (vs_Spec v)) = (w2, r2)"
    by (cases "reconcileTeamMember mem w1 v ''kurtis'' (Kurtis (vs_Spec v))")
  from settled_no_mutation [OF q(2) s2 [unfolded w1]] obtain e2 where
    w2: "w2 = (s, tr @ [?L ''oksana'' e1, ?L ''kurtis'' e2])" by (cases w2) auto
  obtain w3 r3 where s3: "reconcileTeamMember mem w2 v ''matt'' (Matt (vs_Spec v)) = (w3, r3)"
    by (cases "reconcileTeamMember mem w2 v ''matt'' (Matt (vs_Spec v))")
  from settled_no_mutation [OF q(3) s3 [unfolded w2]] obtain e3 where
    w3: "w3 = (s, tr @ [?L ''oksana'' e1, ?L ''kurtis'' e2, ?L ''matt'' e3])" by (cases w3) auto
  obtain w4 r4 where s4: "reconcileTeamMember mem w3 v ''kike'' (Kike (vs_Spec v)) = (w4, r4)"
    by (cases "reconcileTeamMember mem w3 v ''kike'' (Kike (vs_Spec v))")
  from settled_no_mutation [OF q(4) s4 [unfolded w3]] obtain e4 where
    w4: "w4 = (s, tr @ [?L ''oksana'' e1, ?L ''kurtis'' e2, ?L ''matt'' e3, ?L ''kike'' e4])"
    by (cases w4) auto
  from r s1 s2 s3 s4 have "w' = w1 \<or> w' = w2 \<or> w' = w3 \<or> w' = w4"
    by (cases r1; cases r2; cases r3; cases r4) (simp_all add: reconcileMembers_def)
  then consider "w' = w1" | "w' = w2" | "w' = w3" | "w' = w4" by blast
  then show ?thesis
  proof cases
    case 1
    with w1 have "fst w' = s \<and> snd w' = tr @ [?L ''oksana'' e1]
        \<and> (\<forall>ev \<in> set [?L ''oksana'' e1]. \<not> mutation ev)" using nm by simp
    then show ?thesis by blast
  next
    case 2
    with w2 have "fst w' = s \<and> snd w' = tr @ [?L ''oksana'' e1, ?L ''kurtis'' e2]
        \<and> (\<forall>ev \<in> set [?L ''oksana'' e1, ?L ''kurtis'' e2]. \<not> mutation ev)" using nm by simp
    then show ?thesis by blast
  next
    case 3
    with w3 have "fst w' = s \<and> snd w' = tr @ [?L ''oksana'' e1, ?L ''kurtis'' e2, ?L ''matt'' e3]
        \<and> (\<forall>ev \<in> set [?L ''oksana'' e1, ?L ''kurtis'' e2, ?L ''matt'' e3]. \<not> mutation ev)"
      using nm by simp
    then show ?thesis by blast
  next
    case 4
    with w4 have "fst w' = s
        \<and> snd w' = tr @ [?L ''oksana'' e1, ?L ''kurtis'' e2, ?L ''matt'' e3, ?L ''kike'' e4]
        \<and> (\<forall>ev \<in> set [?L ''oksana'' e1, ?L ''kurtis'' e2, ?L ''matt'' e3, ?L ''kike'' e4].
              \<not> mutation ev)"
      using nm by simp
    then show ?thesis by blast
  qed
qed

subsection \<open>The stored resource\<close>

lemma mem_Get_result:
  "r_Get mem (s, tr) k = ((s, tr @ [(CallGet k, err_of (snd (mGet s k)))]), snd (mGet s k))"
  by (auto simp: r_Get_def mem_def mGet_def split: option.splits)

lemma mGet_Inr:
  "snd (mGet s k) = Inr y \<Longrightarrow>
     find (\<lambda>x. vs_key x = k) (c_squads s) = Some y \<and> c_faults s OpGet = None"
  by (auto simp: mGet_def split: option.splits)

lemma mGet_found:
  "find (\<lambda>x. vs_key x = k) (c_squads s) = Some y \<Longrightarrow> c_faults s OpGet = None \<Longrightarrow>
     snd (mGet s k) = Inr y"
  by (simp add: mGet_def)

lemma mGet_missing:
  "find (\<lambda>x. vs_key x = k) (c_squads s) = None \<Longrightarrow> \<exists>e. snd (mGet s k) = Inl e"
  by (auto simp: mGet_def split: option.splits)

lemma find_key: "find (\<lambda>x. vs_key x = k) xs = Some y \<Longrightarrow> vs_key y = k \<and> y \<in> set xs"
  by (auto simp: find_Some_iff)

lemma find_map_replace:
  "vs_key x = k \<Longrightarrow> find (\<lambda>y. vs_key y = k) xs = Some old \<Longrightarrow>
     find (\<lambda>y. vs_key y = k) (map (\<lambda>y. if vs_key y = k then x else y) xs) = Some x"
  by (induction xs) (auto split: if_splits)

lemma find_filter_out:
  "find (\<lambda>y. vs_key y = k) (filter (\<lambda>y. vs_key y \<noteq> k) xs) = None"
  by (induction xs) auto

lemma mem_StatusUpdate:
  "r_StatusUpdate mem w v = (w', res) \<Longrightarrow>
     c_pods (fst w') = c_pods (fst w) \<and> c_faults (fst w') = c_faults (fst w)
     \<and> (\<forall>x. res = Inr x \<longrightarrow>
          (\<exists>old. find (\<lambda>y. vs_key y = vs_key v) (c_squads (fst w)) = Some old
             \<and> x = old\<lparr>vs_Status := vs_Status v\<rparr>
             \<and> c_squads (fst w') =
                 map (\<lambda>y. if vs_key y = vs_key v then x else y) (c_squads (fst w))))"
  by (auto simp: r_StatusUpdate_def mem_def mStatusUpdate_def Let_def split: option.splits)

lemma countReadyPods_mem:
  assumes c: "countReadyPods mem w v = (w', res)"
  shows "fst w' = fst w \<and> (\<exists>e. snd w' = snd w @ [(CallList (vs_Namespace v) (squadLabels (vs_Name v)), e)])"
proof -
  obtain w1 lr where l: "r_List mem w (vs_Namespace v) (squadLabels (vs_Name v)) = (w1, lr)"
    by (cases "r_List mem w (vs_Namespace v) (squadLabels (vs_Name v))")
  from c l have "w' = w1" by (cases lr) (simp_all add: countReadyPods_def)
  with mem_List [OF l] r_List_events [OF l] show ?thesis by simp
qed

lemma updateStatus_mem:
  assumes u: "updateStatus mem w v st = (w', res)"
  shows "c_pods (fst w') = c_pods (fst w) \<and> c_faults (fst w') = c_faults (fst w)
     \<and> (\<exists>evs. snd w' = snd w @ evs \<and> (\<forall>ev \<in> set evs. \<not> mutation ev))
     \<and> (res = None \<longrightarrow>
          (\<exists>old st'. find (\<lambda>y. vs_key y = vs_key v) (c_squads (fst w)) = Some old
             \<and> c_squads (fst w') =
                 map (\<lambda>y. if vs_key y = vs_key v then old\<lparr>vs_Status := st'\<rparr> else y)
                   (c_squads (fst w))))"
proof -
  obtain w1 cnt where c: "countReadyPods mem w v = (w1, cnt)" by (cases "countReadyPods mem w v")
  define st' where "st' = (case cnt of Inl e \<Rightarrow> st | Inr n \<Rightarrow> st\<lparr>ReadyPods := n\<rparr>)"
  let ?v = "v\<lparr>vs_Status := st'\<rparr>"
  obtain w2 ur where su: "r_StatusUpdate mem w1 ?v = (w2, ur)"
    by (cases "r_StatusUpdate mem w1 ?v")
  from u c su have w': "w' = w2" and res: "res = err_of ur"
    by (cases ur; simp add: updateStatus_def Let_def st'_def err_of_def)+
  from countReadyPods_mem [OF c] obtain e where w1: "fst w1 = fst w"
    and e1: "snd w1 = snd w @ [(CallList (vs_Namespace v) (squadLabels (vs_Name v)), e)]"
    by blast
  note m = mem_StatusUpdate [OF su]
  have k: "vs_key ?v = vs_key v" by (simp add: vs_key_def)
  from r_StatusUpdate_events [OF su] e1 w'
  have ev: "snd w' = snd w @ [(CallList (vs_Namespace v) (squadLabels (vs_Name v)), e),
                              (CallStatusUpdate ?v, err_of ur)]" by simp
  have "\<forall>ev \<in> set [(CallList (vs_Namespace v) (squadLabels (vs_Name v)), e),
                      (CallStatusUpdate ?v, err_of ur)]. \<not> mutation ev"
    by (simp add: mutation_def call_kind_def)
  with ev have evs: "\<exists>evs. snd w' = snd w @ evs \<and> (\<forall>ev \<in> set evs. \<not> mutation ev)" by blast
  have "\<exists>old st'. find (\<lambda>y. vs_key y = vs_key v) (c_squads (fst w)) = Some old
             \<and> c_squads (fst w') =
                 map (\<lambda>y. if vs_key y = vs_key v then old\<lparr>vs_Status := st'\<rparr> else y)
                   (c_squads (fst w))" if "res = None"
  proof -
    from that res obtain x where "ur = Inr x" by (cases ur) (simp_all add: err_of_def)
    with m k w1 w' show ?thesis by auto
  qed
  with m w1 w' evs show ?thesis by simp
qed

subsection \<open>A pass on a cluster at rest\<close>

lemma at_rest_no_mutation:
  assumes a: "at_rest s req"
  shows "\<forall>ev \<in> set (drop (length tr) (snd (fst (Reconcile mem (s, tr) req)))). \<not> mutation ev"
proof -
  let ?g = "snd (mGet s req)"
  let ?G = "(CallGet req, err_of ?g)"
  let ?w1 = "(s, tr @ [?G])"
  have get: "r_Get mem (s, tr) req = (?w1, ?g)" by (rule mem_Get_result)
  have nG: "\<not> mutation ?G" by (simp add: mutation_def call_kind_def)
  have only_get: ?thesis if "Reconcile mem (s, tr) req = (?w1, x)" for x
    using that nG by simp
  show ?thesis
  proof (cases ?g)
    case (Inl e)
    with get have "Reconcile mem (s, tr) req = (?w1, if e = NotFound then None else Some e)"
      by (simp add: Reconcile_def)
    then show ?thesis by (rule only_get)
  next
    case (Inr y)
    show ?thesis
    proof (cases "vs_DeletionTimestamp y \<noteq> None")
      case True
      with a Inr have "\<not> ContainsFinalizer y virtSquadFinalizer" by (simp add: at_rest_def)
      with get Inr True have "Reconcile mem (s, tr) req = (?w1, None)"
        by (simp add: Reconcile_def)
      then show ?thesis by (rule only_get)
    next
      case False
      with a Inr have m: "ContainsFinalizer y virtSquadFinalizer"
        and q: "settled s (vs_Namespace y) (vs_Name y) ''oksana'' (Oksana (vs_Spec y))"
          "settled s (vs_Namespace y) (vs_Name y) ''kurtis'' (Kurtis (vs_Spec y))"
          "settled s (vs_Namespace y) (vs_Name y) ''matt'' (Matt (vs_Spec y))"
          "settled s (vs_Namespace y) (vs_Name y) ''kike'' (Kike (vs_Spec y))"
        by (simp_all add: at_rest_def)
      obtain w3 mr where rm: "reconcileMembers mem ?w1 y = (w3, mr)"
        by (cases "reconcileMembers mem ?w1 y")
      from reconcileMembers_settled_no_mutation [OF q rm] obtain evs where
        w3: "fst w3 = s" "snd w3 = (tr @ [?G]) @ evs" "\<forall>ev \<in> set evs. \<not> mutation ev" by blast
      show ?thesis
      proof (cases mr)
        case (Inl e)
        with get Inr False m rm have "Reconcile mem (s, tr) req = (w3, Some e)"
          by (simp add: Reconcile_def ensureFinalizer_def)
        with w3 nG show ?thesis by simp
      next
        case st: (Inr st)
        obtain w4 res where us: "updateStatus mem w3 y st = (w4, res)"
          by (cases "updateStatus mem w3 y st")
        from updateStatus_mem [OF us] obtain evs2 where
          w4: "snd w4 = snd w3 @ evs2" "\<forall>ev \<in> set evs2. \<not> mutation ev" by blast
        from get Inr False m rm st us have "Reconcile mem (s, tr) req = (w4, res)"
          by (simp add: Reconcile_def ensureFinalizer_def)
        with w3 w4 nG show ?thesis by auto
      qed
    qed
  qed
qed


subsection \<open>After a pass without error the cluster is at rest\<close>

lemma ensureFinalizer_mem:
  assumes e: "ensureFinalizer mem w v = (w', Inr v')"
    and f: "find (\<lambda>x. vs_key x = k) (c_squads (fst w)) = Some v"
    and nd: "vs_DeletionTimestamp v = None"
  shows "c_pods (fst w') = c_pods (fst w) \<and> c_faults (fst w') = c_faults (fst w)
       \<and> find (\<lambda>x. vs_key x = k) (c_squads (fst w')) = Some v'
       \<and> vs_Name v' = vs_Name v \<and> vs_Namespace v' = vs_Namespace v \<and> vs_Spec v' = vs_Spec v
       \<and> vs_DeletionTimestamp v' = None \<and> ContainsFinalizer v' virtSquadFinalizer"
proof (cases "ContainsFinalizer v virtSquadFinalizer")
  case True
  with e have "w' = w" "v' = v" by (simp_all add: ensureFinalizer_def)
  with f nd True show ?thesis by simp
next
  case False
  let ?a = "AddFinalizer v virtSquadFinalizer"
  from e False have u: "r_Update mem w ?a = (w', Inr v')" by (simp add: ensureFinalizer_def)
  note uo = mem_Update_ok [OF u]
  from find_key [OF f] have kv: "vs_key v = k" by simp
  have ka: "vs_key ?a = k" using kv by (simp add: vs_key_def AddFinalizer_def)
  have da: "vs_DeletionTimestamp ?a = None" using nd by (simp add: AddFinalizer_def)
  have na: "vs_Name ?a = vs_Name v" "vs_Namespace ?a = vs_Namespace v" "vs_Spec ?a = vs_Spec v"
    by (simp_all add: AddFinalizer_def)
  have fa: "virtSquadFinalizer \<in> set (vs_Finalizers ?a)" by (simp add: AddFinalizer_def)
  from uo ka have kv': "vs_key v' = k" by (simp add: vs_key_def)
  from uo da ka have sq: "c_squads (fst w') = map (\<lambda>y. if vs_key y = k then v' else y) (c_squads (fst w))"
    by simp
  have "find (\<lambda>x. vs_key x = k) (c_squads (fst w')) = Some v'"
    unfolding sq by (rule find_map_replace [OF kv' f])
  with uo da na fa show ?thesis by (simp add: ContainsFinalizer_def)
qed

lemma first_pass_at_rest:
  assumes dist: "distinct (map pod_id (c_pods s))"
    and small: "length (c_pods s) < 2147483648"
    and range: "\<forall>x \<in> set (c_squads s). spec_int32 (vs_Spec x)"
    and first: "Reconcile mem (s, tr) req = ((s', tr'), None)"
  shows "at_rest s' req"
proof -
  let ?g = "snd (mGet s req)"
  let ?w1 = "(s, tr @ [(CallGet req, err_of ?g)])"
  have get: "r_Get mem (s, tr) req = (?w1, ?g)" by (rule mem_Get_result)
  show ?thesis
  proof (cases ?g)
    case (Inl e)
    with get first have "s' = s" by (simp add: Reconcile_def split: if_splits)
    with Inl show ?thesis by (simp add: at_rest_def)
  next
    case (Inr v)
    note fv = mGet_Inr [OF Inr]
    from fv have f: "find (\<lambda>x. vs_key x = req) (c_squads s) = Some v"
      and nofault: "c_faults s OpGet = None" by simp_all
    from find_key [OF f] have kv: "vs_key v = req" and vin: "v \<in> set (c_squads s)" by simp_all
    show ?thesis
    proof (cases "vs_DeletionTimestamp v \<noteq> None")
      case True
      show ?thesis
      proof (cases "ContainsFinalizer v virtSquadFinalizer")
        case False
        with get first Inr True have "s' = s" by (simp add: Reconcile_def)
        with Inr True False show ?thesis by (simp add: at_rest_def)
      next
        case m: True
        let ?u = "RemoveFinalizer v virtSquadFinalizer"
        obtain w2 fr where fz: "finalizeVirtSquad mem ?w1 v = (w2, fr)"
          by (cases "finalizeVirtSquad mem ?w1 v")
        from get first Inr True m fz have fr: "fr = None"
          by (cases fr) (simp_all add: Reconcile_def)
        obtain w3 ur where u: "r_Update mem w2 ?u = (w3, ur)" by (cases "r_Update mem w2 ?u")
        from get first Inr True m fz fr u obtain x where ur: "ur = Inr x" and w3: "w3 = (s', tr')"
          by (cases ur) (simp_all add: Reconcile_def)
        note uo = mem_Update_ok [OF u [unfolded ur]]
        from mem_finalize_frame [OF fz] have q2: "c_squads (fst w2) = c_squads s"
          and f2: "c_faults (fst w2) = c_faults s" by simp_all
        have ku: "vs_key ?u = req" using kv by (simp add: vs_key_def RemoveFinalizer_def)
        have du: "vs_DeletionTimestamp ?u \<noteq> None" using True by (simp add: RemoveFinalizer_def)
        have nx: "\<not> ContainsFinalizer x virtSquadFinalizer" "vs_DeletionTimestamp x \<noteq> None"
          "vs_key x = req"
          using uo du ku by (simp_all add: ContainsFinalizer_def RemoveFinalizer_def vs_key_def)
        have fs': "c_faults s' OpGet = None" using uo w3 f2 nofault by simp
        show ?thesis
        proof (cases "vs_Finalizers ?u = []")
          case e: True
          with uo du ku w3 q2 have "c_squads s' = filter (\<lambda>y. vs_key y \<noteq> req) (c_squads s)"
            by simp
          then have "find (\<lambda>y. vs_key y = req) (c_squads s') = None"
            by (simp add: find_filter_out)
          from mGet_missing [OF this] show ?thesis by (auto simp: at_rest_def)
        next
          case ne: False
          with uo du ku w3 q2 have "c_squads s' = map (\<lambda>y. if vs_key y = req then x else y) (c_squads s)"
            by simp
          then have "find (\<lambda>y. vs_key y = req) (c_squads s') = Some x"
            using find_map_replace [OF nx(3) f] by simp
          from mGet_found [OF this fs'] nx show ?thesis by (simp add: at_rest_def)
        qed
      qed
    next
      case False
      then have nd: "vs_DeletionTimestamp v = None" by simp
      obtain w2 er where en: "ensureFinalizer mem ?w1 v = (w2, er)"
        by (cases "ensureFinalizer mem ?w1 v")
      from get first Inr nd en obtain v' where er: "er = Inr v'"
        by (cases er) (simp_all add: Reconcile_def)
      have f1: "find (\<lambda>x. vs_key x = req) (c_squads (fst ?w1)) = Some v" using f by simp
      note e2 = ensureFinalizer_mem [OF en [unfolded er] f1 nd]
      obtain w3 mr where rm: "reconcileMembers mem w2 v' = (w3, mr)"
        by (cases "reconcileMembers mem w2 v'")
      from get first Inr nd en er rm obtain st where mr: "mr = Inr st"
        by (cases mr) (simp_all add: Reconcile_def)
      from get first Inr nd en er rm mr have us: "updateStatus mem w3 v' st = ((s', tr'), None)"
        by (simp add: Reconcile_def)
      have d2: "distinct (map pod_id (c_pods (fst w2)))" using e2 dist by simp
      have l2: "length (c_pods (fst w2)) < 2147483648" using e2 small by simp
      have r2: "spec_int32 (vs_Spec v')" using e2 range vin by simp
      note st = reconcileMembers_settles [OF rm [unfolded mr] d2 l2 r2]
      note u = updateStatus_mem [OF us]
      from find_key e2 have kv': "vs_key v' = req" by blast
      from u kv' obtain old st' where old: "find (\<lambda>y. vs_key y = req) (c_squads (fst w3)) = Some old"
        and sq: "c_squads s' = map (\<lambda>y. if vs_key y = req then old\<lparr>vs_Status := st'\<rparr> else y)
                                 (c_squads (fst w3))"
        by auto
      from st e2 old have ov: "old = v'" by simp
      let ?y = "v'\<lparr>vs_Status := st'\<rparr>"
      have ky: "vs_key ?y = req" using kv' by (simp add: vs_key_def)
      have fy: "find (\<lambda>y. vs_key y = req) (c_squads s') = Some ?y"
        unfolding sq ov using find_map_replace [OF ky old [unfolded ov]] by simp
      have fs': "c_faults s' OpGet = None" using u st e2 nofault by simp
      have g': "snd (mGet s' req) = Inr ?y" by (rule mGet_found [OF fy fs'])
      have gp: "group_pods s' ns sq m = group_pods (fst w3) ns sq m" for ns sq m
        using u by (simp add: group_pods_def)
      have "settled s' (vs_Namespace v') (vs_Name v') ''oksana'' (Oksana (vs_Spec v'))"
        "settled s' (vs_Namespace v') (vs_Name v') ''kurtis'' (Kurtis (vs_Spec v'))"
        "settled s' (vs_Namespace v') (vs_Name v') ''matt'' (Matt (vs_Spec v'))"
        "settled s' (vs_Namespace v') (vs_Name v') ''kike'' (Kike (vs_Spec v'))"
        using st by (auto intro: settled_cong [OF gp])
      with g' e2 show ?thesis by (simp add: at_rest_def ContainsFinalizer_def)
    qed
  qed
qed

subsection \<open>Counting ready pods\<close>




subsection \<open>Ready pods and reported names of one member\<close>






subsection \<open>The client state after the loops\<close>

lemma r_Delete_unfold:
  "r_Delete r w p = ((fst (cDelete r (fst w) p),
                      snd w @ [(CallDelete p, snd (cDelete r (fst w) p))]),
                     snd (cDelete r (fst w) p))"
  by (simp add: r_Delete_def split: prod.splits)

lemma r_Create_unfold:
  "r_Create r w p = ((fst (cCreate r (fst w) p),
                      snd w @ [(CallCreate p, snd (cCreate r (fst w) p))]),
                     snd (cCreate r (fst w) p))"
  by (simp add: r_Create_def split: prod.splits)

lemma delete_each_ok_state:
  "delete_each r w ps = (w', None) \<Longrightarrow> fst w' = after_deletes r (fst w) ps"
proof (induction ps arbitrary: w)
  case Nil
  then show ?case by (simp add: after_deletes_def)
next
  case (Cons p ps)
  let ?w1 = "fst (r_Delete r w p)"
  from Cons.prems have c: "snd (cDelete r (fst w) p) = None"
    and rest: "delete_each r ?w1 ps = (w', None)"
    by (auto simp: r_Delete_unfold split: option.splits)
  from Cons.IH [OF rest] show ?case
    by (simp add: after_deletes_def r_Delete_unfold)
qed

lemma delete_each_err_state:
  "delete_each r w ps = (w', Some e) \<Longrightarrow>
     \<exists>k < length ps.
        cDelete r (after_deletes r (fst w) (take k ps)) (ps ! k) = (fst w', Some e)
      \<and> snd w' = snd w @ map (\<lambda>p. (CallDelete p, None)) (take k ps)
                        @ [(CallDelete (ps ! k), Some e)]"
proof (induction ps arbitrary: w)
  case Nil
  then show ?case by simp
next
  case (Cons p ps)
  let ?c = "cDelete r (fst w) p"
  let ?w1 = "(fst ?c, snd w @ [(CallDelete p, snd ?c)])"
  show ?case
  proof (cases "snd ?c")
    case None
    with Cons.prems have rest: "delete_each r ?w1 ps = (w', Some e)"
      by (simp add: r_Delete_unfold)
    from Cons.IH [OF rest] obtain k where k: "k < length ps"
      "cDelete r (after_deletes r (fst ?c) (take k ps)) (ps ! k) = (fst w', Some e)"
      "snd w' = (snd w @ [(CallDelete p, snd ?c)]) @ map (\<lambda>p. (CallDelete p, None)) (take k ps)
                 @ [(CallDelete (ps ! k), Some e)]"
      by auto
    with None have "Suc k < length (p # ps)
      \<and> cDelete r (after_deletes r (fst w) (take (Suc k) (p # ps))) ((p # ps) ! Suc k)
          = (fst w', Some e)
      \<and> snd w' = snd w @ map (\<lambda>p. (CallDelete p, None)) (take (Suc k) (p # ps))
                 @ [(CallDelete ((p # ps) ! Suc k), Some e)]"
      by (simp add: after_deletes_def)
    then show ?thesis by blast
  next
    case (Some e')
    with Cons.prems have "w' = ?w1" "e' = e" by (auto simp: r_Delete_unfold)
    with Some have "0 < length (p # ps)
      \<and> cDelete r (after_deletes r (fst w) (take 0 (p # ps))) ((p # ps) ! 0) = (fst w', Some e)
      \<and> snd w' = snd w @ map (\<lambda>p. (CallDelete p, None)) (take 0 (p # ps))
                 @ [(CallDelete ((p # ps) ! 0), Some e)]"
      by (simp add: after_deletes_def prod_eq_iff)
    then show ?thesis by blast
  qed
qed

lemma createPodForMember_unfold:
  "createPodForMember r w v m base i =
     (if ''VirtSquad'' \<in> set (Scheme r) then r_Create r w (ownedPod v m base i)
      else (w, Some SchemeError))"
  by (simp add: createPodForMember_def SetControllerReference_def ownedPod_def)

lemma scaleUp_no_scheme:
  "''VirtSquad'' \<notin> set (Scheme r) \<Longrightarrow> i < d \<Longrightarrow>
     scaleUp r w v m base i d = (w, Some SchemeError)"
  by (simp add: scaleUp.simps [of r w] createPodForMember_unfold)

lemma scaleUp_ok_state:
  "scaleUp r w v m base i d = (w', None) \<Longrightarrow>
     fst w' = after_creates r (fst w) (map (ownedPod v m base) [i..d - 1])"
proof (induction r w v m base i d rule: scaleUp.induct)
  case (1 r w v m base i d)
  show ?case
  proof (cases "i < d")
    case False
    with "1.prems" show ?thesis by (simp add: scaleUp.simps after_creates_def)
  next
    case True
    obtain w1 res where c: "createPodForMember r w v m base i = (w1, res)"
      by (cases "createPodForMember r w v m base i")
    with True "1.prems" have res: "res = None"
      and rest: "scaleUp r w1 v m base (i + 1) d = (w', None)"
      by (auto simp: scaleUp.simps [of r w] split: option.splits)
    from c res have "r_Create r w (ownedPod v m base i) = (w1, None)"
      by (simp add: createPodForMember_ok)
    then have s1: "fst w1 = fst (cCreate r (fst w) (ownedPod v m base i))"
      by (simp add: r_Create_unfold prod_eq_iff)
    have ih: "fst w' = after_creates r (fst w1) (map (ownedPod v m base) [i + 1..d - 1])"
      using "1.IH" [OF True c [symmetric] res rest] by simp
    have "[i..d - 1] = i # [i + 1..d - 1]" using True by (simp add: upto_rec1)
    with ih s1 show ?thesis by (simp add: after_creates_def)
  qed
qed

lemma scaleUp_err_state:
  "scaleUp r w v m base i d = (w', Some e) \<Longrightarrow> ''VirtSquad'' \<in> set (Scheme r) \<Longrightarrow>
     \<exists>k. i \<le> k \<and> k < d
        \<and> cCreate r (after_creates r (fst w) (map (ownedPod v m base) [i..k - 1]))
             (ownedPod v m base k) = (fst w', Some e)
        \<and> snd w' = snd w @ map (\<lambda>j. (CallCreate (ownedPod v m base j), None)) [i..k - 1]
                          @ [(CallCreate (ownedPod v m base k), Some e)]"
proof (induction r w v m base i d rule: scaleUp.induct)
  case (1 r w v m base i d)
  from "1.prems" have lt: "i < d" by (auto simp: scaleUp.simps [of r w] split: if_splits)
  let ?p = "ownedPod v m base i"
  let ?c = "cCreate r (fst w) ?p"
  let ?w1 = "(fst ?c, snd w @ [(CallCreate ?p, snd ?c)])"
  have c: "createPodForMember r w v m base i = (?w1, snd ?c)"
    using "1.prems" by (simp add: createPodForMember_unfold r_Create_unfold)
  show ?case
  proof (cases "snd ?c")
    case (Some e')
    with c lt "1.prems" have "w' = ?w1" "e' = e" by (auto simp: scaleUp.simps [of r w])
    with Some lt have "i \<le> i \<and> i < d
        \<and> cCreate r (after_creates r (fst w) (map (ownedPod v m base) [i..i - 1]))
             (ownedPod v m base i) = (fst w', Some e)
        \<and> snd w' = snd w @ map (\<lambda>j. (CallCreate (ownedPod v m base j), None)) [i..i - 1]
                          @ [(CallCreate (ownedPod v m base i), Some e)]"
      by (simp add: after_creates_def prod_eq_iff)
    then show ?thesis by blast
  next
    case None
    with c lt "1.prems" have rest: "scaleUp r ?w1 v m base (i + 1) d = (w', Some e)"
      by (simp add: scaleUp.simps [of r w])
    from "1.IH" [OF lt c [symmetric] None rest "1.prems"(2)] obtain k where k: "i + 1 \<le> k" "k < d"
      "cCreate r (after_creates r (fst ?c) (map (ownedPod v m base) [i + 1..k - 1]))
             (ownedPod v m base k) = (fst w', Some e)"
      "snd w' = (snd w @ [(CallCreate ?p, snd ?c)])
                 @ map (\<lambda>j. (CallCreate (ownedPod v m base j), None)) [i + 1..k - 1]
                 @ [(CallCreate (ownedPod v m base k), Some e)]"
      by auto
    have u: "[i..k - 1] = i # [i + 1..k - 1]" using k(1) by (simp add: upto_rec1)
    from k None have "i \<le> k \<and> k < d
        \<and> cCreate r (after_creates r (fst w) (map (ownedPod v m base) [i..k - 1]))
             (ownedPod v m base k) = (fst w', Some e)
        \<and> snd w' = snd w @ map (\<lambda>j. (CallCreate (ownedPod v m base j), None)) [i..k - 1]
                          @ [(CallCreate (ownedPod v m base k), Some e)]"
      unfolding u by (simp add: after_creates_def)
    then show ?thesis by blast
  qed
qed

lemma finalize_err_event:
  assumes a: "finalizeVirtSquad r w v = (w', Some e)"
  shows "\<exists>ev \<in> set (drop (length (snd w)) (snd w')). snd ev = Some e"
proof -
  obtain w1 lr where l: "r_List r w (vs_Namespace v) (squadLabels (vs_Name v)) = (w1, lr)"
    by (cases "r_List r w (vs_Namespace v) (squadLabels (vs_Name v))")
  note le = r_List_events [OF l]
  show ?thesis
  proof (cases lr)
    case (Inl e')
    with a l le show ?thesis by (auto simp: finalizeVirtSquad_def err_of_def)
  next
    case (Inr items)
    with a l have "delete_each r w1 items = (w', Some e)" by (simp add: finalizeVirtSquad_def)
    from delete_each_err [OF this] le show ?thesis by auto
  qed
qed

lemma finalize_ok_shape:
  assumes a: "finalizeVirtSquad r w v = (w', None)"
    and l: "r_List r w (vs_Namespace v) (squadLabels (vs_Name v)) = (wl, lr)"
  shows "\<exists>items. lr = Inr items
           \<and> snd w' = snd wl @ map (\<lambda>p. (CallDelete p, None)) items
           \<and> fst w' = after_deletes r (fst wl) items"
proof -
  from a l obtain items where lr: "lr = Inr items"
    by (cases lr) (auto simp: finalizeVirtSquad_def)
  with a l have d: "delete_each r wl items = (w', None)" by (simp add: finalizeVirtSquad_def)
  from delete_each_ok [OF d] delete_each_ok_state [OF d] lr show ?thesis by simp
qed

lemma r_Update_unfold:
  "r_Update r w v = ((fst (cUpdate r (fst w) v),
                      snd w @ [(CallUpdate v, err_of (snd (cUpdate r (fst w) v)))]),
                     snd (cUpdate r (fst w) v))"
  by (simp add: r_Update_def split: prod.splits)

lemma mem_finalize_total:
  assumes nf: "c_faults s = no_faults"
    and dist: "distinct (map pod_id (c_pods s))"
  shows "\<exists>w'. finalizeVirtSquad mem (s, tr) v = (w', None)"
proof -
  let ?sel = "selected (vs_Namespace v) (squadLabels (vs_Name v))"
  let ?items = "filter ?sel (c_pods s)"
  let ?tr1 = "tr @ [(CallList (vs_Namespace v) (squadLabels (vs_Name v)), None)]"
  have l: "r_List mem (s, tr) (vs_Namespace v) (squadLabels (vs_Name v)) = ((s, ?tr1), Inr ?items)"
    using nf by (simp add: r_List_def mem_def mList_def no_faults_def err_of_def)
  have "delete_each mem (s, ?tr1) ?items =
           ((s\<lparr>c_pods := filter (\<lambda>q. pod_id q \<notin> pod_id ` set ?items) (c_pods s)\<rparr>,
             ?tr1 @ map (\<lambda>p. (CallDelete p, None)) ?items), None)"
    using nf dist by (intro mem_delete_each_total) (auto simp: distinct_map_filter)
  with l show ?thesis by (simp add: finalizeVirtSquad_def)
qed

lemma mem_Update_total:
  assumes nf: "c_faults (fst w) OpUpdate = None"
    and f: "find (\<lambda>x. vs_key x = vs_key v) (c_squads (fst w)) = Some old"
  shows "\<exists>x. snd (r_Update mem w v) = Inr x"
  using assms by (simp add: r_Update_def mem_def mUpdate_def Let_def split: prod.splits)

lemma mem_deleting_pass:
  assumes get: "r_Get mem w req = (w1, Inr v)"
    and del: "vs_DeletionTimestamp v \<noteq> None"
    and has: "ContainsFinalizer v virtSquadFinalizer"
    and pass: "Reconcile mem w req = (w', res)"
  shows "(res = None \<longrightarrow>
            squad_pods (fst w') (vs_Namespace v) (vs_Name v) = []
          \<and> (\<forall>x \<in> set (c_squads (fst w')).
                vs_key x = vs_key v \<longrightarrow> \<not> ContainsFinalizer x virtSquadFinalizer)
          \<and> (\<exists>evs. snd w' = snd w1 @ evs
                       @ [(CallUpdate (RemoveFinalizer v virtSquadFinalizer), None)]
                \<and> (\<forall>ev \<in> set evs. snd ev = None \<and> call_kind (fst ev) \<noteq> ''Update'')))
       \<and> (res \<noteq> None \<longrightarrow>
            c_squads (fst w') = c_squads (fst w)
          \<and> (\<forall>ev \<in> set (drop (length (snd w)) (snd w')).
                call_kind (fst ev) = ''Update'' \<longrightarrow> snd ev \<noteq> None))"
proof -
  from mem_Get [OF get] have s1: "fst w1 = fst w" .
  from r_Get_events [OF get] have e1: "snd w1 = snd w @ [(CallGet req, None)]"
    by (simp add: err_of_def)
  obtain w2 fr where f: "finalizeVirtSquad mem w1 v = (w2, fr)"
    by (cases "finalizeVirtSquad mem w1 v")
  from finalize_events [OF f] obtain evs where evs: "snd w2 = snd w1 @ evs"
    "\<forall>ev \<in> set evs. call_kind (fst ev) \<noteq> ''Update''"
    "fr = None \<longrightarrow> (\<forall>ev \<in> set evs. snd ev = None)" by blast
  from mem_finalize_frame [OF f] s1 have q2: "c_squads (fst w2) = c_squads (fst w)" by simp
  show ?thesis
  proof (cases fr)
    case (Some e)
    with pass get del has f have "w' = w2" "res = Some e" by (auto simp: Reconcile_def)
    with q2 evs e1 show ?thesis by (auto simp: call_kind_def)
  next
    case None
    let ?u = "RemoveFinalizer v virtSquadFinalizer"
    obtain w3 ur where u: "r_Update mem w2 ?u = (w3, ur)" by (cases "r_Update mem w2 ?u")
    note ue = r_Update_events [OF u]
    show ?thesis
    proof (cases ur)
      case (Inl e)
      with pass get del has f None u have "w' = w3" "res = Some e"
        by (auto simp: Reconcile_def)
      moreover from u Inl have "fst w3 = fst w2" by (simp add: mem_Update_err)
      ultimately show ?thesis using q2 ue evs e1 Inl by (auto simp: call_kind_def err_of_def)
    next
      case (Inr x)
      with pass get del has f None u have r: "w' = w3" "res = None"
        by (auto simp: Reconcile_def)
      note uo = mem_Update_ok [OF u [unfolded Inr]]
      from mem_finalize_ok_pods [OF f [unfolded None]] uo r
      have p: "squad_pods (fst w') (vs_Namespace v) (vs_Name v) = []"
        by (simp add: squad_pods_def)
      have nx: "\<not> ContainsFinalizer x virtSquadFinalizer"
        using uo by (simp add: ContainsFinalizer_def RemoveFinalizer_def)
      have k: "vs_key ?u = vs_key v" by (simp add: vs_key_def RemoveFinalizer_def)
      have m: "\<forall>y \<in> set (c_squads (fst w')).
                vs_key y = vs_key v \<longrightarrow> \<not> ContainsFinalizer y virtSquadFinalizer"
        using uo r nx k by (auto split: if_splits)
      have "snd w' = snd w1 @ evs @ [(CallUpdate ?u, None)]
            \<and> (\<forall>ev \<in> set evs. snd ev = None \<and> call_kind (fst ev) \<noteq> ''Update'')"
        using ue evs r Inr None by (simp add: err_of_def)
      then have "\<exists>evs. snd w' = snd w1 @ evs @ [(CallUpdate ?u, None)]
            \<and> (\<forall>ev \<in> set evs. snd ev = None \<and> call_kind (fst ev) \<noteq> ''Update'')"
        by blast
      with p m r show ?thesis by simp
    qed
  qed
qed


lemma at_rest_pods:
  assumes a: "at_rest s req"
  shows "c_pods (fst (fst (Reconcile mem (s, tr) req))) = c_pods s"
proof -
  let ?g = "snd (mGet s req)"
  let ?w1 = "(s, tr @ [(CallGet req, err_of ?g)])"
  have get: "r_Get mem (s, tr) req = (?w1, ?g)" by (rule mem_Get_result)
  show ?thesis
  proof (cases ?g)
    case (Inl e)
    with get show ?thesis by (simp add: Reconcile_def)
  next
    case (Inr y)
    show ?thesis
    proof (cases "vs_DeletionTimestamp y \<noteq> None")
      case True
      with a Inr have "\<not> ContainsFinalizer y virtSquadFinalizer" by (simp add: at_rest_def)
      with get Inr True show ?thesis by (simp add: Reconcile_def)
    next
      case False
      with a Inr have m: "ContainsFinalizer y virtSquadFinalizer"
        and q: "settled s (vs_Namespace y) (vs_Name y) ''oksana'' (Oksana (vs_Spec y))"
          "settled s (vs_Namespace y) (vs_Name y) ''kurtis'' (Kurtis (vs_Spec y))"
          "settled s (vs_Namespace y) (vs_Name y) ''matt'' (Matt (vs_Spec y))"
          "settled s (vs_Namespace y) (vs_Name y) ''kike'' (Kike (vs_Spec y))"
        by (simp_all add: at_rest_def)
      obtain w3 mr where rm: "reconcileMembers mem ?w1 y = (w3, mr)"
        by (cases "reconcileMembers mem ?w1 y")
      from reconcileMembers_settled_no_mutation [OF q rm] have w3: "fst w3 = s" by blast
      show ?thesis
      proof (cases mr)
        case (Inl e)
        with get Inr False m rm have "Reconcile mem (s, tr) req = (w3, Some e)"
          by (simp add: Reconcile_def ensureFinalizer_def)
        with w3 show ?thesis by simp
      next
        case st: (Inr st)
        obtain w4 res where us: "updateStatus mem w3 y st = (w4, res)"
          by (cases "updateStatus mem w3 y st")
        from updateStatus_mem [OF us] have "c_pods (fst w4) = c_pods (fst w3)" by simp
        moreover from get Inr False m rm st us have "Reconcile mem (s, tr) req = (w4, res)"
          by (simp add: Reconcile_def ensureFinalizer_def)
        ultimately show ?thesis using w3 by simp
      qed
    qed
  qed
qed

section \<open>Finalization\<close>




section \<open>One team member\<close>

text \<open>
  Claim C8, as amended. Let the list call return \<open>items\<close> and let the observed
  count \<open>current = int32 (length items)\<close> be below the desired count. The
  reconciliation then makes create calls for the ordinals \<open>current, current + 1, ...\<close>
  in that order, the pod of ordinal \<open>i\<close> named \<open>base-i\<close> in the namespace of the
  owner, and stops at the first call that fails. If it succeeds, the calls after the
  list are exactly the \<open>desired - current\<close> creations for the ordinals
  \<open>current, ..., desired - 1\<close>, each answered without error, the client is in the
  state that these calls leave, and the reported names are those of the listed pods.
  If it fails with \<open>e\<close>, then for some ordinal \<open>k\<close> with \<open>current \<le> k < desired\<close>
  the creations for \<open>current, ..., k - 1\<close> succeeded and the create call for \<open>k\<close>
  answered \<open>e\<close>; or, when the scheme does not know the owner's kind, no call was made
  and \<open>e\<close> is the error of the controller reference.
\<close>

theorem scale_up_creates_until_first_error:
  assumes name: "tm_Name ms = Some base"
    and list: "r_List r w (vs_Namespace v) (memberLabels m (vs_Name v)) = (w1, Inr items)"
    and cur: "current = int32 (int (length items))"
    and des: "desired = (case tm_Replicas ms of None \<Rightarrow> 1 | Some d \<Rightarrow> d)"
    and less: "current < desired"
    and run: "reconcileTeamMember r w v m (Some ms) = (w', res)"
  shows "(\<forall>names. res = Inr names \<longrightarrow>
            names = map pod_name items
          \<and> fst w' = after_creates r (fst w1) (map (ownedPod v m base) [current..desired - 1])
          \<and> snd w' = snd w1 @
               map (\<lambda>i. (CallCreate (ownedPod v m base i), None)) [current..desired - 1]
          \<and> int (length [current..desired - 1]) = desired - current)
    \<and> (\<forall>e. res = Inl e \<longrightarrow>
          (if ''VirtSquad'' \<in> set (Scheme r)
           then \<exists>k. current \<le> k \<and> k < desired
                  \<and> cCreate r (after_creates r (fst w1)
                                 (map (ownedPod v m base) [current..k - 1]))
                       (ownedPod v m base k) = (fst w', Some e)
                  \<and> snd w' = snd w1 @
                       map (\<lambda>i. (CallCreate (ownedPod v m base i), None)) [current..k - 1]
                       @ [(CallCreate (ownedPod v m base k), Some e)]
           else e = SchemeError \<and> w' = w1))
    \<and> (\<forall>i. pod_name (ownedPod v m base i) = base @ ''-'' @ show_int i
           \<and> pod_namespace (ownedPod v m base i) = vs_Namespace v)"
proof -
  obtain w2 ur where up: "scaleUp r w1 v m base current desired = (w2, ur)"
    by (cases "scaleUp r w1 v m base current desired")
  from run name list cur des less up
  have shape: "(w', res) = (case ur of Some e \<Rightarrow> (w2, Inl e)
                                      | None \<Rightarrow> (w2, Inr (map pod_name items)))"
    by (simp add: reconcileTeamMember_def Let_def)
  have A: "names = map pod_name items
          \<and> fst w' = after_creates r (fst w1) (map (ownedPod v m base) [current..desired - 1])
          \<and> snd w' = snd w1 @
               map (\<lambda>i. (CallCreate (ownedPod v m base i), None)) [current..desired - 1]
          \<and> int (length [current..desired - 1]) = desired - current"
    if "res = Inr names" for names
  proof -
    from that shape have u: "ur = None" "w2 = w'" "names = map pod_name items"
      by (cases ur; simp)+
    with up have ok: "scaleUp r w1 v m base current desired = (w', None)" by simp
    from scaleUp_ok_state [OF ok] scaleUp_ok_events [OF ok] u less show ?thesis by simp
  qed
  have B: "if ''VirtSquad'' \<in> set (Scheme r)
           then \<exists>k. current \<le> k \<and> k < desired
                  \<and> cCreate r (after_creates r (fst w1)
                                 (map (ownedPod v m base) [current..k - 1]))
                       (ownedPod v m base k) = (fst w', Some e)
                  \<and> snd w' = snd w1 @
                       map (\<lambda>i. (CallCreate (ownedPod v m base i), None)) [current..k - 1]
                       @ [(CallCreate (ownedPod v m base k), Some e)]
           else e = SchemeError \<and> w' = w1"
    if "res = Inl e" for e
  proof -
    from that shape have u: "ur = Some e" "w2 = w'" by (cases ur; simp)+
    with up have er: "scaleUp r w1 v m base current desired = (w', Some e)" by simp
    show ?thesis
    proof (cases "''VirtSquad'' \<in> set (Scheme r)")
      case True
      with scaleUp_err_state [OF er True] show ?thesis by simp
    next
      case False
      with scaleUp_no_scheme [OF False less, of w1 v m base] er show ?thesis by simp
    qed
  qed
  have C: "pod_name (ownedPod v m base i) = base @ ''-'' @ show_int i
           \<and> pod_namespace (ownedPod v m base i) = vs_Namespace v" for i
    by (simp add: ownedPod_def newPod_def)
  from A B C show ?thesis by blast
qed

text \<open>
  Witness: one pod exists and three are wanted; the pods 1 and 2 are created and are
  in the cluster afterwards.
\<close>

theorem scale_up_witness:
  "reconcileTeamMember mem
       (ex_cluster (ex_squad (Some (ex_member (Some ''a'') (Some 3))) [virtSquadFinalizer] None)
          [ex_pod ''a-0'' ''oksana'' True] no_faults, [])
       (ex_squad (Some (ex_member (Some ''a'') (Some 3))) [virtSquadFinalizer] None)
       ''oksana'' (Some (ex_member (Some ''a'') (Some 3)))
   = ((ex_cluster (ex_squad (Some (ex_member (Some ''a'') (Some 3))) [virtSquadFinalizer] None)
          [ex_pod ''a-0'' ''oksana'' True,
           ownedPod (ex_squad (Some (ex_member (Some ''a'') (Some 3))) [virtSquadFinalizer] None)
             ''oksana'' ''a'' 1,
           ownedPod (ex_squad (Some (ex_member (Some ''a'') (Some 3))) [virtSquadFinalizer] None)
             ''oksana'' ''a'' 2] no_faults,
       [(CallList ''ns'' (memberLabels ''oksana'' ''s''), None),
        (CallCreate (ownedPod
          (ex_squad (Some (ex_member (Some ''a'') (Some 3))) [virtSquadFinalizer] None)
          ''oksana'' ''a'' 1), None),
        (CallCreate (ownedPod
          (ex_squad (Some (ex_member (Some ''a'') (Some 3))) [virtSquadFinalizer] None)
          ''oksana'' ''a'' 2), None)]),
      Inr [''a-0''])
   \<and> pod_name (ownedPod
          (ex_squad (Some (ex_member (Some ''a'') (Some 3))) [virtSquadFinalizer] None)
          ''oksana'' ''a'' 2) = ''a-2''"
proof -
  let ?ms = "ex_member (Some ''a'') (Some 3)"
  let ?v = "ex_squad (Some ?ms) [virtSquadFinalizer] None"
  let ?s = "ex_cluster ?v [ex_pod ''a-0'' ''oksana'' True] no_faults"
  let ?w1 = "(?s, [(CallList ''ns'' (memberLabels ''oksana'' ''s''), None)])"
  let ?R = "reconcileTeamMember mem (?s, []) ?v ''oksana'' (Some ?ms)"
  have name: "tm_Name ?ms = Some ''a''" by (simp add: ex_defs)
  have list: "r_List mem (?s, []) (vs_Namespace ?v) (memberLabels ''oksana'' (vs_Name ?v))
      = (?w1, Inr [ex_pod ''a-0'' ''oksana'' True])"
    by (simp add: model_defs mem_defs ex_defs)
  have cur: "1 = int32 (int (length [ex_pod ''a-0'' ''oksana'' True]))"
    by (simp add: int32_def)
  have des: "3 = (case tm_Replicas ?ms of None \<Rightarrow> 1 | Some d \<Rightarrow> d)"
    by (simp add: ex_defs)
  have res: "snd ?R = Inr [''a-0'']" by (simp add: model_defs mem_defs ex_defs)
  then have run: "?R = (fst ?R, Inr [''a-0''])" by (simp add: prod_eq_iff)
  have up: "[1..3 - 1] = [1, 2::int]" by (simp add: upto.simps)
  have cr: "after_creates mem (fst ?w1) (map (ownedPod ?v ''oksana'' ''a'') [1, 2])
      = ex_cluster ?v [ex_pod ''a-0'' ''oksana'' True,
           ownedPod ?v ''oksana'' ''a'' 1, ownedPod ?v ''oksana'' ''a'' 2] no_faults"
    by (simp add: after_creates_def model_defs mem_defs ex_defs)
  from scale_up_creates_until_first_error [OF name list cur des _ run] up cr res
  show ?thesis by (simp add: prod_eq_iff ownedPod_def newPod_def show_int_def digits.simps)
qed

text \<open>
  Counterexample to C8 as stated: two pods are wanted and the one that exists is
  named \<open>a-1\<close>. The observed count 1 is below 2, the create call for ordinal 1
  answers \<open>AlreadyExists\<close>, and no worker is created.
\<close>

theorem scale_up_name_taken_counterexample:
  "reconcileTeamMember mem
       (ex_cluster (ex_squad (Some (ex_member (Some ''a'') (Some 2))) [virtSquadFinalizer] None)
          [ex_pod ''a-1'' ''oksana'' True] no_faults, [])
       (ex_squad (Some (ex_member (Some ''a'') (Some 2))) [virtSquadFinalizer] None)
       ''oksana'' (Some (ex_member (Some ''a'') (Some 2)))
   = ((ex_cluster (ex_squad (Some (ex_member (Some ''a'') (Some 2))) [virtSquadFinalizer] None)
          [ex_pod ''a-1'' ''oksana'' True] no_faults,
       [(CallList ''ns'' (memberLabels ''oksana'' ''s''), None),
        (CallCreate (ownedPod
          (ex_squad (Some (ex_member (Some ''a'') (Some 2))) [virtSquadFinalizer] None)
          ''oksana'' ''a'' 1), Some AlreadyExists)]),
      Inl AlreadyExists)"
  by (simp add: model_defs mem_defs ex_defs)

text \<open>
  Claim C2, as amended. A negative replica count is not rejected: the reconciliation
  of the member lists the member's pods and, if the list call fails, returns its
  error. Otherwise, when the name is null, or the number of listed pods minus the
  replica count is below \<open>2^31\<close>, the listed pods are deleted in listing order and
  the loop stops at the first delete call that fails, returning its error; when all
  succeed the result is success, with the empty member list for a null name and the
  names of the listed pods otherwise, and the client is in the state that the delete
  calls leave. When the name is set, fewer than \<open>2^31\<close> pods are listed and that
  difference is \<open>2^31\<close> or more (the \<^verbatim>\<open>int32\<close> subtraction wraps to a negative
  number), no call follows the list and the names of the listed pods are reported.
  In all these cases the calls after the list are delete calls only.
\<close>

theorem negative_replicas_no_validation:
  assumes reps: "tm_Replicas ms = Some d" and neg: "d < 0"
    and list: "r_List r w (vs_Namespace v) (memberLabels m (vs_Name v)) = (w1, lr)"
    and run: "reconcileTeamMember r w v m (Some ms) = (w', res)"
  shows "(\<forall>e. lr = Inl e \<longrightarrow> w' = w1 \<and> res = Inl e)
    \<and> (\<forall>items. lr = Inr items
           \<and> (tm_Name ms = None \<or> int (length items) - d < 2147483648) \<longrightarrow>
          (\<forall>names. res = Inr names \<longrightarrow>
              names = (if tm_Name ms = None then [] else map pod_name items)
            \<and> fst w' = after_deletes r (fst w1) items
            \<and> snd w' = snd w1 @ map (\<lambda>p. (CallDelete p, None)) items)
        \<and> (\<forall>e. res = Inl e \<longrightarrow>
              (\<exists>k < length items.
                  cDelete r (after_deletes r (fst w1) (take k items)) (items ! k)
                    = (fst w', Some e)
                \<and> snd w' = snd w1 @ map (\<lambda>p. (CallDelete p, None)) (take k items)
                                   @ [(CallDelete (items ! k), Some e)])))
    \<and> (\<forall>items. lr = Inr items \<and> tm_Name ms \<noteq> None \<and> length items < 2147483648
           \<and> 2147483648 \<le> int (length items) - d \<and> - 2147483648 \<le> d \<longrightarrow>
          w' = w1 \<and> res = Inr (map pod_name items))"
proof -
  have L: "w' = w1 \<and> res = Inl e" if "lr = Inl e" for e
    using that run list
    by (auto simp: reconcileTeamMember_def deleteTeamMemberPods_def Let_def split: option.splits)
  have D: "(\<forall>names. res = Inr names \<longrightarrow>
              names = (if tm_Name ms = None then [] else map pod_name items)
            \<and> fst w' = after_deletes r (fst w1) items
            \<and> snd w' = snd w1 @ map (\<lambda>p. (CallDelete p, None)) items)
        \<and> (\<forall>e. res = Inl e \<longrightarrow>
              (\<exists>k < length items.
                  cDelete r (after_deletes r (fst w1) (take k items)) (items ! k)
                    = (fst w', Some e)
                \<and> snd w' = snd w1 @ map (\<lambda>p. (CallDelete p, None)) (take k items)
                                   @ [(CallDelete (items ! k), Some e)]))"
    if lr: "lr = Inr items" and c: "tm_Name ms = None \<or> int (length items) - d < 2147483648"
    for items
  proof -
    obtain w2 dr where de: "delete_each r w1 items = (w2, dr)"
      by (cases "delete_each r w1 items")
    let ?names = "if tm_Name ms = None then [] else map pod_name items"
    have shape: "(w', res) = (case dr of Some e \<Rightarrow> (w2, Inl e) | None \<Rightarrow> (w2, Inr ?names))"
    proof (cases "tm_Name ms")
      case None
      with run list lr de show ?thesis
        by (simp add: reconcileTeamMember_def deleteTeamMemberPods_def)
    next
      case (Some base)
      with c have fits: "int (length items) - d < 2147483648" by simp
      with neg have small: "length items < 2147483648" by simp
      then have cu: "int32 (int (length items)) = int (length items)" by (rule int32_length)
      have pd: "int32 (int (length items) - d) = int (length items) - d"
        using neg fits by (simp add: int32_def)
      have "scaleDown r w1 items 0 (int (length items) - d) = delete_each r w1 (drop (nat 0) items)"
        using neg small by (intro scaleDown_all) simp_all
      with run list lr de Some reps neg cu pd show ?thesis
        by (simp add: reconcileTeamMember_def Let_def)
    qed
    show ?thesis
    proof (cases dr)
      case None
      with shape have "w2 = w'" "res = Inr ?names" by simp_all
      with de None delete_each_ok [of r w1 items w'] delete_each_ok_state [of r w1 items w']
      show ?thesis by simp
    next
      case (Some e)
      with shape have "w2 = w'" "res = Inl e" by simp_all
      with de Some delete_each_err_state [of r w1 items w' e] show ?thesis by simp
    qed
  qed
  have O: "w' = w1 \<and> res = Inr (map pod_name items)"
    if lr: "lr = Inr items" and nm: "tm_Name ms \<noteq> None" and small: "length items < 2147483648"
      and big: "2147483648 \<le> int (length items) - d" and lo: "- 2147483648 \<le> d" for items
  proof -
    from nm obtain base where b: "tm_Name ms = Some base" by auto
    from small have cu: "int32 (int (length items)) = int (length items)" by (rule int32_length)
    from big small lo have "int32 (int (length items) - d) = int (length items) - d - 4294967296"
      by (intro int32_high) simp_all
    with small lo have n: "int32 (int (length items) - d) < 0" by simp
    then have "scaleDown r w1 items 0 (int32 (int (length items) - d)) = (w1, None)"
      by (simp add: scaleDown.simps [of r w1 items 0])
    with run list lr b reps neg cu show ?thesis
      by (simp add: reconcileTeamMember_def Let_def)
  qed
  from L D O show ?thesis by blast
qed

text \<open>
  Witness: replicas \<open>-2\<close> and two pods, both are deleted; replicas \<open>-2^31\<close> and
  one pod, the subtraction overflows and nothing is deleted.
\<close>

theorem negative_replicas_witness:
  "reconcileTeamMember mem
       (ex_cluster (ex_squad (Some (ex_member (Some ''a'') (Some (- 2)))) [virtSquadFinalizer] None)
          [ex_pod ''a-0'' ''oksana'' True, ex_pod ''a-1'' ''oksana'' False] no_faults, [])
       (ex_squad (Some (ex_member (Some ''a'') (Some (- 2)))) [virtSquadFinalizer] None)
       ''oksana'' (Some (ex_member (Some ''a'') (Some (- 2))))
   = ((ex_cluster (ex_squad (Some (ex_member (Some ''a'') (Some (- 2)))) [virtSquadFinalizer] None)
          [] no_faults,
       [(CallList ''ns'' (memberLabels ''oksana'' ''s''), None),
        (CallDelete (ex_pod ''a-0'' ''oksana'' True), None),
        (CallDelete (ex_pod ''a-1'' ''oksana'' False), None)]),
      Inr [''a-0'', ''a-1''])
   \<and> reconcileTeamMember mem
       (ex_cluster (ex_squad (Some (ex_member (Some ''a'') (Some (- 2147483648))))
          [virtSquadFinalizer] None) [ex_pod ''a-0'' ''oksana'' True] no_faults, [])
       (ex_squad (Some (ex_member (Some ''a'') (Some (- 2147483648)))) [virtSquadFinalizer] None)
       ''oksana'' (Some (ex_member (Some ''a'') (Some (- 2147483648))))
   = ((ex_cluster (ex_squad (Some (ex_member (Some ''a'') (Some (- 2147483648))))
          [virtSquadFinalizer] None) [ex_pod ''a-0'' ''oksana'' True] no_faults,
       [(CallList ''ns'' (memberLabels ''oksana'' ''s''), None)]),
      Inr [''a-0''])"
proof -
  let ?ms = "ex_member (Some ''a'') (Some (- 2))"
  let ?v = "ex_squad (Some ?ms) [virtSquadFinalizer] None"
  let ?ps = "[ex_pod ''a-0'' ''oksana'' True, ex_pod ''a-1'' ''oksana'' False]"
  let ?s = "ex_cluster ?v ?ps no_faults"
  let ?w1 = "(?s, [(CallList ''ns'' (memberLabels ''oksana'' ''s''), None)])"
  let ?R = "reconcileTeamMember mem (?s, []) ?v ''oksana'' (Some ?ms)"
  have reps: "tm_Replicas ?ms = Some (- 2)" by (simp add: ex_defs)
  have list: "r_List mem (?s, []) (vs_Namespace ?v) (memberLabels ''oksana'' (vs_Name ?v))
      = (?w1, Inr ?ps)"
    by (simp add: model_defs mem_defs ex_defs)
  have res: "snd ?R = Inr [''a-0'', ''a-1'']" by (simp add: model_defs mem_defs ex_defs)
  then have run: "?R = (fst ?R, Inr [''a-0'', ''a-1''])" by (simp add: prod_eq_iff)
  have de: "after_deletes mem (fst ?w1) ?ps = ex_cluster ?v [] no_faults"
    by (simp add: after_deletes_def model_defs mem_defs ex_defs)
  from negative_replicas_no_validation [OF reps _ list run] de res
  have first: "?R = ((ex_cluster ?v [] no_faults,
       [(CallList ''ns'' (memberLabels ''oksana'' ''s''), None),
        (CallDelete (ex_pod ''a-0'' ''oksana'' True), None),
        (CallDelete (ex_pod ''a-1'' ''oksana'' False), None)]),
      Inr [''a-0'', ''a-1''])"
    by (simp add: prod_eq_iff ex_member_def)
  let ?mo = "ex_member (Some ''a'') (Some (- 2147483648))"
  let ?vo = "ex_squad (Some ?mo) [virtSquadFinalizer] None"
  let ?so = "ex_cluster ?vo [ex_pod ''a-0'' ''oksana'' True] no_faults"
  let ?wo = "(?so, [(CallList ''ns'' (memberLabels ''oksana'' ''s''), None)])"
  let ?Ro = "reconcileTeamMember mem (?so, []) ?vo ''oksana'' (Some ?mo)"
  have repso: "tm_Replicas ?mo = Some (- 2147483648)" by (simp add: ex_defs)
  have listo: "r_List mem (?so, []) (vs_Namespace ?vo) (memberLabels ''oksana'' (vs_Name ?vo))
      = (?wo, Inr [ex_pod ''a-0'' ''oksana'' True])"
    by (simp add: model_defs mem_defs ex_defs)
  have runo: "?Ro = (fst ?Ro, snd ?Ro)" by simp
  from negative_replicas_no_validation [OF repso _ listo runo]
  have second: "?Ro = (?wo, Inr [''a-0''])"
    by (simp add: prod_eq_iff ex_defs)
  from first second show ?thesis by simp
qed

text \<open>
  Counterexample to C2 as stated: with replicas \<open>-1\<close> and one pod, the reconciliation
  returns no error and has deleted the pod.
\<close>

theorem negative_replicas_counterexample:
  "reconcileTeamMember mem
       (ex_cluster (ex_squad (Some (ex_member (Some ''a'') (Some (- 1)))) [virtSquadFinalizer] None)
          [ex_pod ''a-0'' ''oksana'' True] no_faults, [])
       (ex_squad (Some (ex_member (Some ''a'') (Some (- 1)))) [virtSquadFinalizer] None)
       ''oksana'' (Some (ex_member (Some ''a'') (Some (- 1))))
   = ((ex_cluster (ex_squad (Some (ex_member (Some ''a'') (Some (- 1)))) [virtSquadFinalizer] None)
          [] no_faults,
       [(CallList ''ns'' (memberLabels ''oksana'' ''s''), None),
        (CallDelete (ex_pod ''a-0'' ''oksana'' True), None)]),
      Inr [''a-0''])"
  by (simp add: model_defs mem_defs ex_defs)

text \<open>
  Claim C1: the code at two inputs. Scaling up from no pod to two, the two pods are
  created and the reported member list is empty; scaling down from two pods to one,
  the pod \<open>a-0\<close> is deleted and the reported list still names it. The list is the one
  read before the operations.
\<close>

theorem member_list_is_the_list_read_before:
  "reconcileTeamMember mem
       (ex_cluster (ex_squad (Some (ex_member (Some ''a'') (Some 2))) [virtSquadFinalizer] None)
          [] no_faults, [])
       (ex_squad (Some (ex_member (Some ''a'') (Some 2))) [virtSquadFinalizer] None)
       ''oksana'' (Some (ex_member (Some ''a'') (Some 2)))
   = ((ex_cluster (ex_squad (Some (ex_member (Some ''a'') (Some 2))) [virtSquadFinalizer] None)
          [ownedPod (ex_squad (Some (ex_member (Some ''a'') (Some 2))) [virtSquadFinalizer] None)
             ''oksana'' ''a'' 0,
           ownedPod (ex_squad (Some (ex_member (Some ''a'') (Some 2))) [virtSquadFinalizer] None)
             ''oksana'' ''a'' 1]
          no_faults,
       [(CallList ''ns'' (memberLabels ''oksana'' ''s''), None),
        (CallCreate (ownedPod
           (ex_squad (Some (ex_member (Some ''a'') (Some 2))) [virtSquadFinalizer] None)
           ''oksana'' ''a'' 0), None),
        (CallCreate (ownedPod
           (ex_squad (Some (ex_member (Some ''a'') (Some 2))) [virtSquadFinalizer] None)
           ''oksana'' ''a'' 1), None)]),
      Inr [])
   \<and> reconcileTeamMember mem
       (ex_cluster (ex_squad (Some (ex_member (Some ''a'') (Some 1))) [virtSquadFinalizer] None)
          [ex_pod ''a-0'' ''oksana'' True, ex_pod ''a-1'' ''oksana'' True] no_faults, [])
       (ex_squad (Some (ex_member (Some ''a'') (Some 1))) [virtSquadFinalizer] None)
       ''oksana'' (Some (ex_member (Some ''a'') (Some 1)))
   = ((ex_cluster (ex_squad (Some (ex_member (Some ''a'') (Some 1))) [virtSquadFinalizer] None)
          [ex_pod ''a-1'' ''oksana'' True] no_faults,
       [(CallList ''ns'' (memberLabels ''oksana'' ''s''), None),
        (CallDelete (ex_pod ''a-0'' ''oksana'' True), None)]),
      Inr [''a-0'', ''a-1''])"
  by (simp add: model_defs mem_defs ex_defs)

section \<open>The pass\<close>

text \<open>
  Claim C4, as amended. When the resource is not being deleted and has no finalizer,
  the pass adds the finalizer and persists the update; if the update fails the pass
  stops with that error, and otherwise it goes on, in the same pass, with the
  reconciliation of the members and the status write, on the object the update
  returned. A pass that ends without error ends with a successful status write.
\<close>

theorem finalizer_added_then_pass_continues:
  assumes get: "r_Get r w req = (w1, Inr v)"
    and nd: "vs_DeletionTimestamp v = None"
    and nf: "\<not> ContainsFinalizer v virtSquadFinalizer"
    and upd: "r_Update r w1 (AddFinalizer v virtSquadFinalizer) = (w2, u)"
  shows "Reconcile r w req =
           (case u of
              Inl e \<Rightarrow> (w2, Some e)
            | Inr v' \<Rightarrow>
                (case reconcileMembers r w2 v' of
                   (w3, Inl e) \<Rightarrow> (w3, Some e)
                 | (w3, Inr status) \<Rightarrow> updateStatus r w3 v' status))
     \<and> (snd (Reconcile r w req) = None \<longrightarrow>
          (\<exists>x. last (snd (fst (Reconcile r w req))) = (CallStatusUpdate x, None)))"
proof -
  have eq: "Reconcile r w req =
           (case u of
              Inl e \<Rightarrow> (w2, Some e)
            | Inr v' \<Rightarrow>
                (case reconcileMembers r w2 v' of
                   (w3, Inl e) \<Rightarrow> (w3, Some e)
                 | (w3, Inr status) \<Rightarrow> updateStatus r w3 v' status))"
    using get nd nf upd by (simp add: Reconcile_def ensureFinalizer_def split: sum.splits)
  have "\<exists>x. last (snd (fst (Reconcile r w req))) = (CallStatusUpdate x, None)"
    if ok: "snd (Reconcile r w req) = None"
  proof (cases u)
    case (Inl e)
    with eq ok show ?thesis by simp
  next
    case (Inr v')
    obtain w3 mr where m: "reconcileMembers r w2 v' = (w3, mr)"
      by (cases "reconcileMembers r w2 v'")
    show ?thesis
    proof (cases mr)
      case (Inl e)
      with eq ok Inr m show ?thesis by simp
    next
      case (Inr status)
      with eq \<open>u = Inr v'\<close> m have r: "Reconcile r w req = updateStatus r w3 v' status"
        by simp
      with ok have "updateStatus r w3 v' status = (fst (Reconcile r w req), None)"
        by (metis prod.collapse)
      then show ?thesis by (rule updateStatus_ok_last)
    qed
  qed
  with eq show ?thesis by blast
qed

text \<open>
  Witness: a squad without finalizer that wants one pod of oksana. The update
  succeeds and the pass ends with the status write.
\<close>

theorem finalizer_added_witness:
  "snd (Reconcile mem
     (ex_cluster (ex_squad (Some (ex_member (Some ''a'') (Some 1))) [] None) [] no_faults, [])
     (''ns'', ''s'')) = None
   \<and> call_kind (fst (last (snd (fst (Reconcile mem
     (ex_cluster (ex_squad (Some (ex_member (Some ''a'') (Some 1))) [] None) [] no_faults, [])
     (''ns'', ''s'')))))) = ''Status().Update''
   \<and> vs_Finalizers (hd (c_squads (fst (fst (Reconcile mem
     (ex_cluster (ex_squad (Some (ex_member (Some ''a'') (Some 1))) [] None) [] no_faults, [])
     (''ns'', ''s'')))))) = [virtSquadFinalizer]"
proof -
  let ?v = "ex_squad (Some (ex_member (Some ''a'') (Some 1))) [] None"
  let ?s = "ex_cluster ?v [] no_faults"
  let ?w1 = "(?s, [(CallGet (''ns'', ''s''), None)])"
  let ?u = "r_Update mem ?w1 (AddFinalizer ?v virtSquadFinalizer)"
  have get: "r_Get mem (?s, []) (''ns'', ''s'') = (?w1, Inr ?v)"
    by (simp add: model_defs mem_defs ex_defs)
  have nd: "vs_DeletionTimestamp ?v = None" by (simp add: ex_defs)
  have nf: "\<not> ContainsFinalizer ?v virtSquadFinalizer"
    by (simp add: ContainsFinalizer_def ex_defs)
  have upd: "?u = (fst ?u, snd ?u)" by simp
  have u: "snd ?u = Inr (AddFinalizer ?v virtSquadFinalizer)"
    by (simp add: model_defs mem_defs ex_defs)
  from finalizer_added_then_pass_continues [OF get nd nf upd] u show ?thesis
    by (simp add: model_defs mem_defs ex_defs call_kind_def)
qed

text \<open>
  Counterexample to C4 as stated: the calls of that pass. After the update come the
  list and create calls of the members and the status write.
\<close>

theorem pass_continues_counterexample:
  "map (\<lambda>ev. (call_kind (fst ev), snd ev)) (snd (fst (Reconcile mem
     (ex_cluster (ex_squad (Some (ex_member (Some ''a'') (Some 1))) [] None) [] no_faults, [])
     (''ns'', ''s''))))
   = [(''Get'', None), (''Update'', None), (''List'', None), (''Create'', None),
      (''List'', None), (''List'', None), (''List'', None), (''List'', None),
      (''Status().Update'', None)]"
  by (simp add: model_defs mem_defs ex_defs call_kind_def)

text \<open>
  Claim C5, as amended. When the ready count fails, the error is dropped: the pass
  goes on to the status write, with \<open>ReadyPods\<close> left at zero, and the result of the
  pass is the result of that write.
\<close>

theorem ready_count_error_is_not_fatal:
  assumes get: "r_Get r w req = (w1, Inr v)"
    and nd: "vs_DeletionTimestamp v = None"
    and ens: "ensureFinalizer r w1 v = (w2, Inr v')"
    and grp: "reconcileMembers r w2 v' = (w3, Inr status)"
    and cnt: "countReadyPods r w3 v' = (w4, Inl e)"
  shows "Reconcile r w req =
           (case r_StatusUpdate r w4 (v'\<lparr>vs_Status := status\<rparr>) of
              (w5, Inl e') \<Rightarrow> (w5, Some e')
            | (w5, Inr _) \<Rightarrow> (w5, None))
     \<and> ReadyPods status = 0"
  using get nd ens grp cnt reconcileMembers_ReadyPods [OF grp]
  by (simp add: Reconcile_def updateStatus_def)

text \<open>
  Witness: the list call of the ready count fails with a server error; the pass
  returns no error and has written the status, with the member list of oksana, the
  total 1 and the ready count 0.
\<close>

theorem ready_count_error_witness:
  "snd (Reconcile mem
     (ex_cluster (ex_squad (Some (ex_member (Some ''a'') (Some 1))) [virtSquadFinalizer] None)
        [ex_pod ''a-0'' ''oksana'' True] (one_fault (OpList (squadLabels ''s'')) ServerError), [])
     (''ns'', ''s'')) = None
   \<and> vs_Status (hd (c_squads (fst (fst (Reconcile mem
     (ex_cluster (ex_squad (Some (ex_member (Some ''a'') (Some 1))) [virtSquadFinalizer] None)
        [ex_pod ''a-0'' ''oksana'' True] (one_fault (OpList (squadLabels ''s'')) ServerError), [])
     (''ns'', ''s''))))))
     = emptyStatus\<lparr>OksanaPods := [''a-0''], TotalPods := 1\<rparr>"
proof -
  let ?v = "ex_squad (Some (ex_member (Some ''a'') (Some 1))) [virtSquadFinalizer] None"
  let ?s = "ex_cluster ?v [ex_pod ''a-0'' ''oksana'' True]
              (one_fault (OpList (squadLabels ''s'')) ServerError)"
  let ?w1 = "(?s, [(CallGet (''ns'', ''s''), None)])"
  let ?m = "reconcileMembers mem ?w1 ?v"
  let ?c = "countReadyPods mem (fst ?m) ?v"
  have get: "r_Get mem (?s, []) (''ns'', ''s'') = (?w1, Inr ?v)"
    by (simp add: model_defs mem_defs ex_defs)
  have nd: "vs_DeletionTimestamp ?v = None" by (simp add: ex_defs)
  have ens: "ensureFinalizer mem ?w1 ?v = (?w1, Inr ?v)"
    by (simp add: ensureFinalizer_def ContainsFinalizer_def ex_defs)
  have grp: "?m = (fst ?m, Inr (emptyStatus\<lparr>OksanaPods := [''a-0''], TotalPods := 1\<rparr>))"
    by (simp add: model_defs mem_defs ex_defs)
  have cnt: "?c = (fst ?c, Inl ServerError)"
    by (simp add: model_defs mem_defs ex_defs)
  from ready_count_error_is_not_fatal [OF get nd ens grp cnt] show ?thesis
    by (simp add: model_defs mem_defs ex_defs)
qed

text \<open>
  Counterexample to C5 as stated: the calls of that pass and their errors. The failed
  list is followed by the status write, and the pass returns no error.
\<close>

theorem ready_count_error_counterexample:
  "snd (Reconcile mem
     (ex_cluster (ex_squad (Some (ex_member (Some ''a'') (Some 1))) [virtSquadFinalizer] None)
        [ex_pod ''a-0'' ''oksana'' True] (one_fault (OpList (squadLabels ''s'')) ServerError), [])
     (''ns'', ''s'')) = None
   \<and> map (\<lambda>ev. (call_kind (fst ev), snd ev)) (snd (fst (Reconcile mem
     (ex_cluster (ex_squad (Some (ex_member (Some ''a'') (Some 1))) [virtSquadFinalizer] None)
        [ex_pod ''a-0'' ''oksana'' True] (one_fault (OpList (squadLabels ''s'')) ServerError), [])
     (''ns'', ''s''))))
   = [(''Get'', None), (''List'', None), (''List'', None), (''List'', None), (''List'', None),
      (''List'', Some ServerError), (''Status().Update'', None)]"
  by (simp add: model_defs mem_defs ex_defs call_kind_def)

section \<open>A member without base name\<close>



section \<open>A resource marked for deletion\<close>

text \<open>
  Claim C9, as amended. Take, on any client, a pass that fetched a resource marked
  for deletion which carries the finalizer. The marker is cleared, that is, the update
  that removes the finalizer is made and succeeds, if and only if the pass returns no
  error, and that is if and only if no call of the pass after the fetch failed: the
  list call, the delete call of every listed pod, and the update. In that case the
  calls after the list are the successful deletes of the listed pods in order,
  followed by the update, and the client is in the state that these calls leave; so
  the marker is removed only after every listed owned worker was deleted with
  success, and on any failure of the finalization it is retained. Whether a worker
  remains after its successful delete call is decided by the cluster: on the
  in-memory cluster, which removes a pod as soon as its delete succeeds, with no
  fault and distinct pod identities, the pass always succeeds, no pod selected by the
  squad's labels remains and no stored resource of that identity carries the
  finalizer.
\<close>

theorem marker_cleared_iff_cleanup_calls_succeed:
  assumes get: "r_Get r w req = (w1, Inr v)"
    and del: "vs_DeletionTimestamp v \<noteq> None"
    and has: "ContainsFinalizer v virtSquadFinalizer"
    and list: "r_List r w1 (vs_Namespace v) (squadLabels (vs_Name v)) = (wl, lr)"
    and pass: "Reconcile r w req = (w', res)"
  shows "((res = None) = (\<forall>ev \<in> set (drop (length (snd w1)) (snd w')). snd ev = None))
    \<and> ((res = None) =
         ((CallUpdate (RemoveFinalizer v virtSquadFinalizer), None)
            \<in> set (drop (length (snd w1)) (snd w'))))
    \<and> (res = None \<longrightarrow>
         (\<exists>items. lr = Inr items
            \<and> snd w' = snd wl @ map (\<lambda>p. (CallDelete p, None)) items
                         @ [(CallUpdate (RemoveFinalizer v virtSquadFinalizer), None)]
            \<and> fst w' = fst (cUpdate r (after_deletes r (fst wl) items)
                               (RemoveFinalizer v virtSquadFinalizer))))
    \<and> (c_faults s = no_faults \<and> distinct (map pod_id (c_pods s))
         \<and> snd (mGet s k) = Inr y \<and> vs_DeletionTimestamp y \<noteq> None
         \<and> ContainsFinalizer y virtSquadFinalizer \<longrightarrow>
           snd (Reconcile mem (s, tr) k) = None
         \<and> squad_pods (fst (fst (Reconcile mem (s, tr) k))) (vs_Namespace y) (vs_Name y) = []
         \<and> (\<forall>x \<in> set (c_squads (fst (fst (Reconcile mem (s, tr) k)))).
               vs_key x = k \<longrightarrow> \<not> ContainsFinalizer x virtSquadFinalizer))"
proof -
  let ?u = "RemoveFinalizer v virtSquadFinalizer"
  let ?new = "drop (length (snd w1)) (snd w')"
  obtain w2 fr where f: "finalizeVirtSquad r w1 v = (w2, fr)"
    by (cases "finalizeVirtSquad r w1 v")
  from finalize_events [OF f] obtain evs where evs: "snd w2 = snd w1 @ evs"
    "\<forall>ev \<in> set evs. call_kind (fst ev) \<noteq> ''Update''"
    "fr = None \<longrightarrow> (\<forall>ev \<in> set evs. snd ev = None)" by blast
  have nu: "(CallUpdate ?u, None) \<notin> set evs"
    using evs(2) by (auto simp: call_kind_def)
  have G: "((res = None) = (\<forall>ev \<in> set ?new. snd ev = None))
    \<and> ((res = None) = ((CallUpdate ?u, None) \<in> set ?new))
    \<and> (res = None \<longrightarrow>
         (\<exists>items. lr = Inr items
            \<and> snd w' = snd wl @ map (\<lambda>p. (CallDelete p, None)) items @ [(CallUpdate ?u, None)]
            \<and> fst w' = fst (cUpdate r (after_deletes r (fst wl) items) ?u)))"
  proof (cases fr)
    case (Some e)
    with pass get del has f have r: "w' = w2" "res = Some e" by (auto simp: Reconcile_def)
    from finalize_err_event [OF f [unfolded Some]] r
    have "\<exists>ev \<in> set ?new. snd ev = Some e" by simp
    then have "\<not> (\<forall>ev \<in> set ?new. snd ev = None)" by auto
    moreover have "(CallUpdate ?u, None) \<notin> set ?new" using r evs(1) nu by simp
    ultimately show ?thesis using r by simp
  next
    case None
    let ?c = "cUpdate r (fst w2) ?u"
    let ?w3 = "(fst ?c, snd w2 @ [(CallUpdate ?u, err_of (snd ?c))])"
    have u: "r_Update r w2 ?u = (?w3, snd ?c)" by (rule r_Update_unfold)
    from finalize_ok_shape [OF f [unfolded None] list] obtain items where
      it: "lr = Inr items" "snd w2 = snd wl @ map (\<lambda>p. (CallDelete p, None)) items"
        "fst w2 = after_deletes r (fst wl) items" by blast
    from pass get del has f None u have w': "w' = ?w3" and res: "res = err_of (snd ?c)"
      by (cases "snd ?c"; simp add: Reconcile_def err_of_def)+
    have new: "?new = evs @ [(CallUpdate ?u, err_of (snd ?c))]"
      using w' evs(1) by simp
    show ?thesis
    proof (cases "snd ?c")
      case (Inl e)
      with res have "res = Some e" by (simp add: err_of_def)
      with new Inl nu show ?thesis by (auto simp: err_of_def)
    next
      case (Inr x)
      with res have rn: "res = None" by (simp add: err_of_def)
      from new Inr evs(3) None have a: "\<forall>ev \<in> set ?new. snd ev = None"
        by (auto simp: err_of_def)
      from new Inr have b: "(CallUpdate ?u, None) \<in> set ?new" by (simp add: err_of_def)
      from w' it Inr have c: "lr = Inr items
            \<and> snd w' = snd wl @ map (\<lambda>p. (CallDelete p, None)) items @ [(CallUpdate ?u, None)]
            \<and> fst w' = fst (cUpdate r (after_deletes r (fst wl) items) ?u)"
        by (simp add: err_of_def)
      from rn a b c show ?thesis by blast
    qed
  qed
  have M: "snd (Reconcile mem (s, tr) k) = None
         \<and> squad_pods (fst (fst (Reconcile mem (s, tr) k))) (vs_Namespace y) (vs_Name y) = []
         \<and> (\<forall>x \<in> set (c_squads (fst (fst (Reconcile mem (s, tr) k)))).
               vs_key x = k \<longrightarrow> \<not> ContainsFinalizer x virtSquadFinalizer)"
    if nf: "c_faults s = no_faults" and dist: "distinct (map pod_id (c_pods s))"
      and g: "snd (mGet s k) = Inr y" and dy: "vs_DeletionTimestamp y \<noteq> None"
      and hy: "ContainsFinalizer y virtSquadFinalizer"
  proof -
    let ?uy = "RemoveFinalizer y virtSquadFinalizer"
    let ?m1 = "(s, tr @ [(CallGet k, err_of (snd (mGet s k)))])"
    let ?R = "Reconcile mem (s, tr) k"
    have gm: "r_Get mem (s, tr) k = (?m1, Inr y)" using mem_Get_result [of s tr k] g by simp
    from mem_finalize_total [OF nf dist, of "snd ?m1" y] obtain m2 where
      fm: "finalizeVirtSquad mem ?m1 y = (m2, None)" by auto
    from mem_finalize_frame [OF fm] have fr2: "c_squads (fst m2) = c_squads s"
      "c_faults (fst m2) = c_faults s" by simp_all
    from mGet_Inr [OF g] have fy: "find (\<lambda>x. vs_key x = k) (c_squads s) = Some y" by simp
    from find_key [OF fy] have ky: "vs_key y = k" by simp
    have ku: "vs_key ?uy = k" using ky by (simp add: vs_key_def RemoveFinalizer_def)
    have "c_faults (fst m2) OpUpdate = None" using fr2 nf by (simp add: no_faults_def)
    moreover have "find (\<lambda>x. vs_key x = vs_key ?uy) (c_squads (fst m2)) = Some y"
      using fy fr2 ku by simp
    ultimately obtain x where ux: "snd (r_Update mem m2 ?uy) = Inr x"
      using mem_Update_total by blast
    then obtain m3 where um: "r_Update mem m2 ?uy = (m3, Inr x)"
      by (cases "r_Update mem m2 ?uy") simp
    from gm dy hy fm um have pm: "?R = (m3, None)"
      by (simp add: Reconcile_def)
    then have rn: "snd ?R = None" by simp
    from pm have pr: "?R = (fst ?R, None)" by simp
    from mem_deleting_pass [OF gm dy hy pr] ky rn show ?thesis by simp
  qed
  from G M show ?thesis by blast
qed

text \<open>
  Witness: a deleting squad with the finalizer and two pods on the in-memory cluster;
  the pass succeeds, its calls are the fetch, the list, the two deletes and the
  update, both pods are gone and the resource, whose last finalizer was removed, is
  gone too.
\<close>

theorem marker_cleared_witness:
  "snd (Reconcile mem
     (ex_cluster (ex_squad None [virtSquadFinalizer] (Some 1))
        [ex_pod ''a-0'' ''oksana'' True, ex_pod ''b-0'' ''kurtis'' False] no_faults, [])
     (''ns'', ''s'')) = None
   \<and> c_pods (fst (fst (Reconcile mem
     (ex_cluster (ex_squad None [virtSquadFinalizer] (Some 1))
        [ex_pod ''a-0'' ''oksana'' True, ex_pod ''b-0'' ''kurtis'' False] no_faults, [])
     (''ns'', ''s'')))) = []
   \<and> c_squads (fst (fst (Reconcile mem
     (ex_cluster (ex_squad None [virtSquadFinalizer] (Some 1))
        [ex_pod ''a-0'' ''oksana'' True, ex_pod ''b-0'' ''kurtis'' False] no_faults, [])
     (''ns'', ''s'')))) = []
   \<and> snd (fst (Reconcile mem
     (ex_cluster (ex_squad None [virtSquadFinalizer] (Some 1))
        [ex_pod ''a-0'' ''oksana'' True, ex_pod ''b-0'' ''kurtis'' False] no_faults, [])
     (''ns'', ''s'')))
     = [(CallGet (''ns'', ''s''), None),
        (CallList ''ns'' (squadLabels ''s''), None),
        (CallDelete (ex_pod ''a-0'' ''oksana'' True), None),
        (CallDelete (ex_pod ''b-0'' ''kurtis'' False), None),
        (CallUpdate (RemoveFinalizer (ex_squad None [virtSquadFinalizer] (Some 1))
                       virtSquadFinalizer), None)]"
proof -
  let ?v = "ex_squad None [virtSquadFinalizer] (Some 1)"
  let ?ps = "[ex_pod ''a-0'' ''oksana'' True, ex_pod ''b-0'' ''kurtis'' False]"
  let ?s = "ex_cluster ?v ?ps no_faults"
  let ?w1 = "(?s, [(CallGet (''ns'', ''s''), None)])"
  let ?wl = "(?s, [(CallGet (''ns'', ''s''), None), (CallList ''ns'' (squadLabels ''s''), None)])"
  let ?R = "Reconcile mem (?s, []) (''ns'', ''s'')"
  have get: "r_Get mem (?s, []) (''ns'', ''s'') = (?w1, Inr ?v)"
    by (simp add: model_defs mem_defs ex_defs)
  have del: "vs_DeletionTimestamp ?v \<noteq> None" by (simp add: ex_defs)
  have has: "ContainsFinalizer ?v virtSquadFinalizer"
    by (simp add: ContainsFinalizer_def ex_defs)
  have list: "r_List mem ?w1 (vs_Namespace ?v) (squadLabels (vs_Name ?v)) = (?wl, Inr ?ps)"
    by (simp add: model_defs mem_defs ex_defs)
  have pass: "?R = (fst ?R, snd ?R)" by simp
  have nf: "c_faults ?s = no_faults" by (simp add: ex_defs)
  have dist: "distinct (map pod_id (c_pods ?s))" by (simp add: ex_defs pod_id_def)
  have g: "snd (mGet ?s (''ns'', ''s'')) = Inr ?v" by (simp add: mem_defs ex_defs)
  have st: "fst (cUpdate mem (after_deletes mem (fst ?wl) ?ps) (RemoveFinalizer ?v virtSquadFinalizer))
      = ex_cluster ?v [] no_faults\<lparr>c_squads := []\<rparr>"
    by (simp add: after_deletes_def model_defs mem_defs ex_defs)
  from marker_cleared_iff_cleanup_calls_succeed [OF get del has list pass,
      of ?s "(''ns'', ''s'')" ?v "[]"] nf dist g del has st
  show ?thesis by (auto simp: ex_cluster_def)
qed

text \<open>
  Counterexample to C9 as stated, in both directions. On the in-memory cluster with
  no pod, the update that would remove the finalizer fails with a conflict: zero
  owned workers remain and the stored resource still carries the finalizer. On the
  cluster with graceful termination, the delete of the pod \<open>a-0\<close> succeeds and the
  pod stays listed: the pass clears the finalizer, the resource is removed, and the
  owned worker \<open>a-0\<close> remains.
\<close>

theorem marker_and_workers_counterexample:
  "snd (Reconcile mem
     (ex_cluster (ex_squad None [virtSquadFinalizer] (Some 1)) [] (one_fault OpUpdate Conflict), [])
     (''ns'', ''s'')) = Some Conflict
   \<and> squad_pods (fst (fst (Reconcile mem
     (ex_cluster (ex_squad None [virtSquadFinalizer] (Some 1)) [] (one_fault OpUpdate Conflict), [])
     (''ns'', ''s'')))) ''ns'' ''s'' = []
   \<and> c_squads (fst (fst (Reconcile mem
     (ex_cluster (ex_squad None [virtSquadFinalizer] (Some 1)) [] (one_fault OpUpdate Conflict), [])
     (''ns'', ''s'')))) = [ex_squad None [virtSquadFinalizer] (Some 1)]
   \<and> ContainsFinalizer (ex_squad None [virtSquadFinalizer] (Some 1)) virtSquadFinalizer
   \<and> snd (Reconcile grace
     (ex_cluster (ex_squad None [virtSquadFinalizer] (Some 1))
        [ex_pod ''a-0'' ''oksana'' True] no_faults, [])
     (''ns'', ''s'')) = None
   \<and> c_squads (fst (fst (Reconcile grace
     (ex_cluster (ex_squad None [virtSquadFinalizer] (Some 1))
        [ex_pod ''a-0'' ''oksana'' True] no_faults, [])
     (''ns'', ''s'')))) = []
   \<and> squad_pods (fst (fst (Reconcile grace
     (ex_cluster (ex_squad None [virtSquadFinalizer] (Some 1))
        [ex_pod ''a-0'' ''oksana'' True] no_faults, [])
     (''ns'', ''s'')))) ''ns'' ''s'' = [ex_pod ''a-0'' ''oksana'' True]"
  by (simp add: model_defs mem_defs grace_def gDelete_def ex_defs squad_pods_def)

section \<open>Two passes in a row\<close>

text \<open>
  Claim C7, as amended. On the in-memory cluster, where a successful create or delete
  takes effect at once and the next list call shows it (pod identities distinct,
  fewer than \<open>2^31\<close> pods, replica counts in the \<^verbatim>\<open>int32\<close> range), when a pass
  returns no error, the pass that follows it on the cluster it left, with no change
  in between, makes no create call and no delete call and leaves the pods of the
  cluster as they are.
\<close>

theorem second_pass_creates_and_deletes_nothing:
  assumes dist: "distinct (map pod_id (c_pods s))"
    and small: "length (c_pods s) < 2147483648"
    and range: "\<forall>x \<in> set (c_squads s). spec_int32 (vs_Spec x)"
    and first: "Reconcile mem (s, tr) req = ((s', tr'), None)"
  shows "(\<forall>ev \<in> set (drop (length tr') (snd (fst (Reconcile mem (s', tr') req)))).
            \<not> mutation ev)
       \<and> c_pods (fst (fst (Reconcile mem (s', tr') req))) = c_pods s'"
  using at_rest_no_mutation [OF first_pass_at_rest [OF dist small range first]]
    at_rest_pods [OF first_pass_at_rest [OF dist small range first]]
  by simp

text \<open>
  Witness: two pods of oksana are wanted and none exists. The first pass creates
  \<open>a-0\<close> and \<open>a-1\<close> and returns no error; the second pass has no create or delete
  among its calls and the two pods are still the pods of the cluster.
\<close>

theorem second_pass_witness:
  "snd (Reconcile mem
     (ex_cluster (ex_squad (Some (ex_member (Some ''a'') (Some 2))) [virtSquadFinalizer] None)
        [] no_faults, []) (''ns'', ''s'')) = None
   \<and> map pod_name (c_pods (fst (fst (Reconcile mem
     (ex_cluster (ex_squad (Some (ex_member (Some ''a'') (Some 2))) [virtSquadFinalizer] None)
        [] no_faults, []) (''ns'', ''s''))))) = [''a-0'', ''a-1'']
   \<and> filter mutation
       (drop (length (snd (fst (Reconcile mem
          (ex_cluster (ex_squad (Some (ex_member (Some ''a'') (Some 2))) [virtSquadFinalizer] None)
             [] no_faults, []) (''ns'', ''s'')))))
         (snd (fst (Reconcile mem
            (fst (Reconcile mem
               (ex_cluster (ex_squad (Some (ex_member (Some ''a'') (Some 2))) [virtSquadFinalizer] None)
                  [] no_faults, []) (''ns'', ''s'')))
            (''ns'', ''s''))))) = []
   \<and> map pod_name (c_pods (fst (fst (Reconcile mem
            (fst (Reconcile mem
               (ex_cluster (ex_squad (Some (ex_member (Some ''a'') (Some 2))) [virtSquadFinalizer] None)
                  [] no_faults, []) (''ns'', ''s'')))
            (''ns'', ''s''))))) = [''a-0'', ''a-1'']"
proof -
  let ?v = "ex_squad (Some (ex_member (Some ''a'') (Some 2))) [virtSquadFinalizer] None"
  let ?s = "ex_cluster ?v [] no_faults"
  let ?R = "Reconcile mem (?s, []) (''ns'', ''s'')"
  have dist: "distinct (map pod_id (c_pods ?s))" by (simp add: ex_defs)
  have small: "length (c_pods ?s) < 2147483648" by (simp add: ex_defs)
  have range: "\<forall>x \<in> set (c_squads ?s). spec_int32 (vs_Spec x)"
    by (simp add: ex_defs spec_int32_def replicas_int32_def is_int32_def)
  have ok: "snd ?R = None" by (simp add: model_defs mem_defs ex_defs)
  have pods: "map pod_name (c_pods (fst (fst ?R))) = [''a-0'', ''a-1'']"
    by (simp add: model_defs mem_defs ex_defs)
  from ok have first: "?R = ((fst (fst ?R), snd (fst ?R)), None)" by (simp add: prod_eq_iff)
  from second_pass_creates_and_deletes_nothing [OF dist small range first] ok pods
  show ?thesis by (simp add: filter_empty_conv)
qed

text \<open>
  Counterexample to C7 as stated, twice. On the in-memory cluster, two pods of oksana
  are wanted and the one that exists is named \<open>a-1\<close> (what a scale-down from two
  leaves behind, since it deletes the first listed pod): the pass tries to create
  \<open>a-1\<close>, fails with \<open>AlreadyExists\<close> and leaves the cluster unchanged, and the
  second pass makes the same create call. On the cluster with graceful termination,
  oksana has no spec and the pod \<open>a-0\<close>: the first pass deletes it with success and
  returns no error, the pod stays listed, and the second pass makes the delete call
  again.
\<close>

theorem second_pass_repeats_calls_counterexample:
  "Reconcile mem
     (ex_cluster (ex_squad (Some (ex_member (Some ''a'') (Some 2))) [virtSquadFinalizer] None)
        [ex_pod ''a-1'' ''oksana'' True] no_faults, []) (''ns'', ''s'')
   = ((ex_cluster (ex_squad (Some (ex_member (Some ''a'') (Some 2))) [virtSquadFinalizer] None)
        [ex_pod ''a-1'' ''oksana'' True] no_faults,
       [(CallGet (''ns'', ''s''), None),
        (CallList ''ns'' (memberLabels ''oksana'' ''s''), None),
        (CallCreate (ownedPod
           (ex_squad (Some (ex_member (Some ''a'') (Some 2))) [virtSquadFinalizer] None)
           ''oksana'' ''a'' 1), Some AlreadyExists)]),
      Some AlreadyExists)
   \<and> map (\<lambda>ev. (call_kind (fst ev), snd ev)) (snd (fst (Reconcile mem
       (fst (fst (Reconcile mem
          (ex_cluster (ex_squad (Some (ex_member (Some ''a'') (Some 2))) [virtSquadFinalizer] None)
             [ex_pod ''a-1'' ''oksana'' True] no_faults, []) (''ns'', ''s''))), [])
       (''ns'', ''s''))))
     = [(''Get'', None), (''List'', None), (''Create'', Some AlreadyExists)]
   \<and> snd (Reconcile grace
       (ex_cluster (ex_squad None [virtSquadFinalizer] None)
          [ex_pod ''a-0'' ''oksana'' True] no_faults, []) (''ns'', ''s'')) = None
   \<and> map (\<lambda>ev. (call_kind (fst ev), snd ev)) (snd (fst (Reconcile grace
       (fst (fst (Reconcile grace
          (ex_cluster (ex_squad None [virtSquadFinalizer] None)
             [ex_pod ''a-0'' ''oksana'' True] no_faults, []) (''ns'', ''s''))), [])
       (''ns'', ''s''))))
     = [(''Get'', None), (''List'', None), (''Delete'', None), (''List'', None),
        (''List'', None), (''List'', None), (''List'', None), (''Status().Update'', None)]"
  by (simp add: model_defs mem_defs grace_def gDelete_def ex_defs call_kind_def)

section \<open>The status counters\<close>




end
